theory Spec2Isabelle
  imports Complex_Main "HOL-Library.Word" "HOL-Library.Log_Nat" "HOL-Library.Sublist"
begin

section \<open>Exceptions, awaited calls and the collaborators of the pipeline\<close>

text \<open>
  A Python exception is its class and its message; \<open>str\<close> is what \<^verbatim>\<open>str(e)\<close> gives.
  Every class below derives from \<^verbatim>\<open>Exception\<close>; \<open>TimeoutError\<close> is the class that
  \<^verbatim>\<open>except asyncio.TimeoutError\<close> catches.
\<close>

datatype exn_kind =
  ValueError | RuntimeError | TimeoutError | ProcessLookupError
  | UnicodeDecodeError | OverflowError | ZeroDivisionError | OtherError

datatype exn = Exn exn_kind string

fun kind :: "exn \<Rightarrow> exn_kind" where
  "kind (Exn k m) = k"

fun str :: "exn \<Rightarrow> string" where
  "str (Exn k m) = m"

type_synonym bytes = "8 word list"

text \<open>
  The result of a call into a collaborator (Telegram, the child process, the observer, the
  temporary file): it returns after some ticks of the event loop's clock, raises after
  some ticks, or never comes back.
\<close>

datatype 'a await = Returns nat 'a | Raises nat exn | Never

text \<open>
  Everything the pipeline does not decide itself. Each field is what the corresponding
  call of \<^verbatim>\<open>stream_processor.py\<close> observes.
\<close>

record env =
  file_size :: int
    \<comment> \<open>\<^verbatim>\<open>message.video.file_size\<close>\<close>
  media :: "(nat \<times> bytes) list"
    \<comment> \<open>the chunks \<^verbatim>\<open>client.stream_media(message)\<close> yields, each with the ticks its pull takes\<close>
  media_end :: "unit await"
    \<comment> \<open>the pull after the last chunk: exhausted, raises, or never returns\<close>
  spawn :: "unit await"
    \<comment> \<open>\<^verbatim>\<open>asyncio.create_subprocess_exec(*ffmpeg_cmd, ...)\<close>\<close>
  progress_callback :: "(nat option \<Rightarrow> nat option \<Rightarrow> unit await) option"
    \<comment> \<open>the optional observer, called with \<open>(total_bytes, None)\<close> or \<open>(None, output_bytes)\<close>\<close>
  stdin_accepts :: nat
    \<comment> \<open>how many bytes the child process takes from its standard input before it stalls\<close>
  stdout_data :: bytes
    \<comment> \<open>the bytes the child process writes to its standard output\<close>
  stdout_avail :: "nat \<Rightarrow> nat \<times> nat"
    \<comment> \<open>the i-th \<^verbatim>\<open>process.stdout.read\<close>: ticks until data is there, and how many bytes are there\<close>
  stdout_end :: "unit await"
    \<comment> \<open>the read after the last byte: end of stream, raises, or never returns\<close>
  sink_write :: "nat \<Rightarrow> unit await"
    \<comment> \<open>\<^verbatim>\<open>temp_file.write(chunk)\<close> for the i-th chunk of the output stream\<close>
  proc_wait :: "int await"
    \<comment> \<open>\<^verbatim>\<open>process.wait()\<close>, counted from the call; the value is \<^verbatim>\<open>process.returncode\<close>\<close>
  stderr_data :: bytes
    \<comment> \<open>what \<^verbatim>\<open>process.stderr.read()\<close> returns\<close>
  decode :: "bytes \<Rightarrow> exn + string"
    \<comment> \<open>\<^verbatim>\<open>bytes.decode()\<close>: the text, or \<open>UnicodeDecodeError\<close>\<close>
  kill_raises :: "exn option"
    \<comment> \<open>whether \<^verbatim>\<open>process.kill()\<close> raises on a process that was not waited for (it has exited by itself)\<close>
  reply_video :: "unit await"
    \<comment> \<open>\<^verbatim>\<open>message.reply_video(video=temp_path, caption=caption)\<close>\<close>

section \<open>\<^verbatim>\<open>VideoStreamProcessor.__init__\<close>\<close>

definition chunk_size :: nat where
  "chunk_size = 1024 * 1024"

definition max_file_size :: int where
  "max_file_size = 2 * 1024 * 1024 * 1024"

definition processing_timeout :: nat where
  "processing_timeout = 300"

section \<open>\<^verbatim>\<open>stream_from_telegram\<close>\<close>

text \<open>
  An async generator is what its consumer sees when it pulls: the items in order, then how
  the pull after the last item ends. Nothing of the generator's body runs before the
  first pull. Here the first pull runs the size check: a file over the limit raises
  \<open>ValueError\<close>, which the \<^verbatim>\<open>except Exception\<close> around the whole body turns into
  \<open>RuntimeError\<close>, as it does with whatever \<^verbatim>\<open>stream_media\<close> raises.
\<close>

type_synonym 'a agen = "(nat \<times> 'a) list \<times> unit await"

definition too_large :: exn where
  "too_large = Exn ValueError ''File too large. Maximum size: 2.0GB''"

definition stream_failed :: "exn \<Rightarrow> exn" where
  "stream_failed x = Exn RuntimeError (''Failed to stream video from Telegram: '' @ str x)"

definition stream_from_telegram :: "env \<Rightarrow> bytes agen" where
  "stream_from_telegram e =
     (if file_size e > max_file_size then ([], Raises 0 (stream_failed too_large))
      else (media e,
            case media_end e of
              Raises d x \<Rightarrow> Raises d (stream_failed x)
            | r \<Rightarrow> r))"

section \<open>\<^verbatim>\<open>process_with_ffmpeg\<close>: the feeder\<close>

text \<open>
  What the task \<^verbatim>\<open>feed_input\<close> has done when it ends: the chunks handed to
  \<^verbatim>\<open>process.stdin.write\<close> with the time of each write, whether
  \<^verbatim>\<open>process.stdin.close()\<close> was reached, and how the task ends (at which time).
  \<^verbatim>\<open>process.stdin\<close> is a stream writer, since the process is created with
  \<^verbatim>\<open>stdin=PIPE\<close>, so both \<^verbatim>\<open>if process.stdin\<close> tests hold.
  \<^verbatim>\<open>write\<close> is a plain call: it queues the chunk and returns, and the source never
  awaits \<^verbatim>\<open>drain()\<close>.
\<close>

record feed =
  written :: "bytes list"
  write_times :: "nat list"
  stdin_closed :: bool
  feed_result :: "unit await"

definition notify :: "env \<Rightarrow> nat option \<Rightarrow> nat option \<Rightarrow> unit await" where
  \<comment> \<open>\<^verbatim>\<open>if progress_callback: await progress_callback(a, b)\<close>\<close>
  "notify e a b = (case progress_callback e of None \<Rightarrow> Returns 0 () | Some f \<Rightarrow> f a b)"

definition wrote :: "bytes \<Rightarrow> nat \<Rightarrow> feed \<Rightarrow> feed" where
  "wrote chunk t f = f\<lparr>written := chunk # written f, write_times := t # write_times f\<rparr>"

fun feed_loop :: "env \<Rightarrow> (nat \<times> bytes) list \<Rightarrow> unit await \<Rightarrow> nat \<Rightarrow> nat \<Rightarrow> feed" where
  "feed_loop e [] fin total_bytes t =
     (case fin of
        Returns d u \<Rightarrow>
          \<lparr>written = [], write_times = [], stdin_closed = True, feed_result = Returns (t + d) ()\<rparr>
      | Raises d x \<Rightarrow>
          \<lparr>written = [], write_times = [], stdin_closed = False, feed_result = Raises (t + d) x\<rparr>
      | Never \<Rightarrow>
          \<lparr>written = [], write_times = [], stdin_closed = False, feed_result = Never\<rparr>)"
| "feed_loop e ((d, chunk) # rest) fin total_bytes t =
     (let total_bytes' = total_bytes + length chunk in
      wrote chunk (t + d)
        (case notify e (Some total_bytes') None of
           Returns dc u \<Rightarrow> feed_loop e rest fin total_bytes' (t + d + dc)
         | Raises dc x \<Rightarrow>
             \<lparr>written = [], write_times = [], stdin_closed = False,
              feed_result = Raises (t + d + dc) x\<rparr>
         | Never \<Rightarrow>
             \<lparr>written = [], write_times = [], stdin_closed = False, feed_result = Never\<rparr>))"

definition feed_input :: "env \<Rightarrow> bytes agen \<Rightarrow> nat \<Rightarrow> feed" where
  "feed_input e input_stream t = feed_loop e (fst input_stream) (snd input_stream) 0 t"

section \<open>\<^verbatim>\<open>process_with_ffmpeg\<close>: the read loop\<close>

text \<open>
  \<^verbatim>\<open>process.stdout.read(n)\<close> waits until at least one byte is there and returns at most
  \<open>n\<close> of the bytes that are there; it returns \<^verbatim>\<open>b''\<close> only at end of stream.
  The loop ends in one of four ways: end of stream; an exception of the read or of the
  observer, which the inner \<^verbatim>\<open>except Exception\<close> wraps; the consumer of the generator
  fails while the generator is suspended at \<^verbatim>\<open>yield\<close> and never resumes it; or a call
  that never returns.
\<close>

datatype drained = Eof nat | Failed nat exn | Abandoned nat exn | Stuck

definition read_failed :: "exn \<Rightarrow> exn" where
  "read_failed x = Exn RuntimeError (''Failed to read FFmpeg output: '' @ str x)"

definition stdout_read :: "env \<Rightarrow> nat \<Rightarrow> nat \<Rightarrow> bytes \<Rightarrow> bytes" where
  \<comment> \<open>the i-th \<^verbatim>\<open>process.stdout.read(n)\<close> while bytes are pending\<close>
  "stdout_read e i n pending = take (min n (max 1 (snd (stdout_avail e i)))) pending"

function drain_loop :: "env \<Rightarrow> nat \<Rightarrow> bytes \<Rightarrow> nat \<Rightarrow> nat \<Rightarrow> bytes list \<times> drained" where
  "drain_loop e i pending output_bytes t =
     (if pending = [] then
        (case stdout_end e of
           Returns d u \<Rightarrow> ([], Eof (t + d))
         | Raises d x \<Rightarrow> ([], Failed (t + d) (read_failed x))
         | Never \<Rightarrow> ([], Stuck))
      else
        (let chunk = stdout_read e i chunk_size pending;
             t1 = t + fst (stdout_avail e i);
             output_bytes' = output_bytes + length chunk
         in case sink_write e i of
              Raises ds x \<Rightarrow> ([chunk], Abandoned (t1 + ds) x)
            | Never \<Rightarrow> ([chunk], Stuck)
            | Returns ds u \<Rightarrow>
                (case notify e None (Some output_bytes') of
                   Raises dc x \<Rightarrow> ([chunk], Failed (t1 + ds + dc) (read_failed x))
                 | Never \<Rightarrow> ([chunk], Stuck)
                 | Returns dc u \<Rightarrow>
                     (case drain_loop e (i + 1) (drop (length chunk) pending) output_bytes'
                             (t1 + ds + dc) of
                        (chunks, r) \<Rightarrow> (chunk # chunks, r)))))"
  by pat_completeness auto
termination
  by (relation "measure (\<lambda>(e, i, pending, output_bytes, t). length pending)")
     (auto simp: chunk_size_def stdout_read_def)

section \<open>\<^verbatim>\<open>process_with_ffmpeg\<close>\<close>

text \<open>
  The child process as the pipeline leaves it: never created, created and neither
  waited for nor killed, waited for until it exited, or killed.
\<close>

datatype proc_status = NotSpawned | Running | Exited | Killed

text \<open>
  What the consumer of the generator \<^verbatim>\<open>process_with_ffmpeg\<close> sees of it: it ends after
  its last chunk, it raises, the consumer itself fails and drops the generator suspended
  at \<^verbatim>\<open>yield\<close> (closing a generator there raises \<open>GeneratorExit\<close> inside it, which is
  not an \<^verbatim>\<open>Exception\<close>: no handler of the body runs), or the next chunk never comes.
\<close>

datatype gen_end = Completed nat | Raised nat exn | Dropped nat exn | Hangs

record run =
  proc :: proc_status
  feeder :: "feed option"
  yielded :: "bytes list"
  outcome :: gen_end

definition wait_for :: "'a await \<Rightarrow> nat \<Rightarrow> 'a await" where
  \<comment> \<open>\<^verbatim>\<open>asyncio.wait_for(aw, timeout)\<close>\<close>
  "wait_for aw timeout =
     (case aw of
        Returns d v \<Rightarrow> if d < timeout then Returns d v else Raises timeout (Exn TimeoutError [])
      | Raises d x \<Rightarrow> if d < timeout then Raises d x else Raises timeout (Exn TimeoutError [])
      | Never \<Rightarrow> Raises timeout (Exn TimeoutError []))"

definition timed_out :: exn where
  "timed_out = Exn RuntimeError ''Processing timed out after 300 seconds''"

definition processing_failed :: "exn \<Rightarrow> exn" where
  "processing_failed x = Exn RuntimeError (''Video processing failed: '' @ str x)"

definition ffmpeg_failed :: "string \<Rightarrow> exn" where
  "ffmpeg_failed error_msg = Exn RuntimeError (''FFmpeg processing failed: '' @ error_msg)"

text \<open>
  \<^verbatim>\<open>if process: process.kill()\<close>. Once \<^verbatim>\<open>process.wait()\<close> has returned, asyncio has let
  go of the process (the transport clears its process where it wakes those who wait), and
  \<^verbatim>\<open>kill()\<close> raises \<open>ProcessLookupError\<close>, whose \<^verbatim>\<open>str\<close> is empty. On a process that
  was not waited for, a kill that raises found the process gone.
\<close>

definition process_gone :: exn where
  "process_gone = Exn ProcessLookupError []"

definition kill :: "env \<Rightarrow> proc_status \<Rightarrow> proc_status \<times> exn option" where
  "kill e p =
     (case p of
        NotSpawned \<Rightarrow> (NotSpawned, None)
      | Running \<Rightarrow> (case kill_raises e of None \<Rightarrow> (Killed, None) | Some k \<Rightarrow> (Exited, Some k))
      | Exited \<Rightarrow> (Exited, Some process_gone)
      | Killed \<Rightarrow> (Killed, None))"

definition handlers :: "env \<Rightarrow> proc_status \<Rightarrow> nat \<Rightarrow> exn \<Rightarrow> proc_status \<times> gen_end" where
  \<comment> \<open>the two \<^verbatim>\<open>except\<close> clauses of the outer \<^verbatim>\<open>try\<close>\<close>
  "handlers e p t x =
     (case kill e p of
        (p', Some k) \<Rightarrow> (p', Raised t k)
      | (p', None) \<Rightarrow>
          (p', Raised t (if kind x = TimeoutError then timed_out else processing_failed x)))"

definition check_exit :: "env \<Rightarrow> int \<Rightarrow> exn option" where
  \<comment> \<open>the test of \<^verbatim>\<open>process.returncode\<close> after \<^verbatim>\<open>process.stderr.read()\<close>\<close>
  "check_exit e returncode =
     (if returncode \<noteq> 0 then
        (case (if stderr_data e \<noteq> [] then decode e (stderr_data e)
               else Inr ''Unknown FFmpeg error'') of
           Inl x \<Rightarrow> Some x
         | Inr error_msg \<Rightarrow> Some (ffmpeg_failed error_msg))
      else None)"

definition failing :: "env \<Rightarrow> proc_status \<Rightarrow> feed option \<Rightarrow> bytes list \<Rightarrow> nat \<Rightarrow> exn \<Rightarrow> run" where
  "failing e p f chunks t x =
     (case handlers e p t x of
        (p', g) \<Rightarrow> \<lparr>proc = p', feeder = f, yielded = chunks, outcome = g\<rparr>)"

text \<open>
  The body after the read loop has ended at end of stream, at time \<open>t\<close>:
  \<^verbatim>\<open>await asyncio.wait_for(process.wait(), timeout=self.processing_timeout)\<close>, then the
  test of the exit code.
\<close>

definition wait_and_check :: "env \<Rightarrow> feed \<Rightarrow> bytes list \<Rightarrow> nat \<Rightarrow> run" where
  "wait_and_check e f chunks t =
     (case wait_for (proc_wait e) processing_timeout of
        Never \<Rightarrow> \<lparr>proc = Running, feeder = Some f, yielded = chunks, outcome = Hangs\<rparr>
      | Raises dw x \<Rightarrow> failing e Running (Some f) chunks (t + dw) x
      | Returns dw returncode \<Rightarrow>
          (case check_exit e returncode of
             Some x \<Rightarrow> failing e Exited (Some f) chunks (t + dw) x
           | None \<Rightarrow>
               \<lparr>proc = Exited, feeder = Some f, yielded = chunks, outcome = Completed (t + dw)\<rparr>))"

text \<open>\<^verbatim>\<open>await feed_task\<close>, reached at time \<open>t\<close>, and what follows it.\<close>

definition await_feed_task :: "env \<Rightarrow> feed \<Rightarrow> bytes list \<Rightarrow> nat \<Rightarrow> run" where
  "await_feed_task e f chunks t =
     (case feed_result f of
        Never \<Rightarrow> \<lparr>proc = Running, feeder = Some f, yielded = chunks, outcome = Hangs\<rparr>
      | Raises tf x \<Rightarrow> failing e Running (Some f) chunks (max t tf) x
      | Returns tf u \<Rightarrow> wait_and_check e f chunks (max t tf))"

text \<open>
  The whole body: the process is created first; the feeder task is created next and runs
  beside the read loop, from the time the process exists.
\<close>

definition process_with_ffmpeg :: "env \<Rightarrow> bytes agen \<Rightarrow> run" where
  "process_with_ffmpeg e input_stream =
     (case spawn e of
        Never \<Rightarrow> \<lparr>proc = NotSpawned, feeder = None, yielded = [], outcome = Hangs\<rparr>
      | Raises d x \<Rightarrow> failing e NotSpawned None [] d x
      | Returns d u \<Rightarrow>
          (let f = feed_input e input_stream d in
           case drain_loop e 0 (stdout_data e) 0 d of
             (chunks, Stuck) \<Rightarrow>
               \<lparr>proc = Running, feeder = Some f, yielded = chunks, outcome = Hangs\<rparr>
           | (chunks, Abandoned t x) \<Rightarrow>
               \<lparr>proc = Running, feeder = Some f, yielded = chunks, outcome = Dropped t x\<rparr>
           | (chunks, Failed t x) \<Rightarrow> failing e Running (Some f) chunks t x
           | (chunks, Eof t) \<Rightarrow> await_feed_task e f chunks t))"

section \<open>\<^verbatim>\<open>send_processed_video\<close> and \<^verbatim>\<open>process_video_stream\<close>\<close>

text \<open>
  \<^verbatim>\<open>send_processed_video\<close> writes every chunk of the output stream to a temporary file
  (the writes are \<open>sink_write\<close>, taken between two steps of the read loop), sends the
  file, and turns any exception into \<open>RuntimeError\<close>. It never closes the output
  stream itself. Creating and deleting the temporary file are taken to succeed, and
  cancellation of the calling task is not followed.
\<close>

definition send_failed :: "exn \<Rightarrow> exn" where
  "send_failed x = Exn RuntimeError (''Failed to send processed video: '' @ str x)"

definition send_processed_video :: "env \<Rightarrow> gen_end \<Rightarrow> unit await" where
  "send_processed_video e output_stream =
     (case output_stream of
        Hangs \<Rightarrow> Never
      | Dropped t x \<Rightarrow> Raises t (send_failed x)
      | Raised t x \<Rightarrow> Raises t (send_failed x)
      | Completed t \<Rightarrow>
          (case reply_video e of
             Returns d u \<Rightarrow> Returns (t + d) ()
           | Raises d x \<Rightarrow> Raises (t + d) (send_failed x)
           | Never \<Rightarrow> Never))"

definition process_video_stream :: "env \<Rightarrow> run \<times> unit await" where
  "process_video_stream e =
     (let input_stream = stream_from_telegram e;
          r = process_with_ffmpeg e input_stream
      in (r, send_processed_video e (outcome r)))"

section \<open>Python numbers\<close>

text \<open>
  A Python \<^verbatim>\<open>float\<close> is an IEEE 754 binary64 number: 53 significant bits, exponents
  of the last bit from \<open>-1074\<close> to \<open>971\<close>, results rounded to the nearest such number,
  ties to the one with an even last bit. A finite float is the rational it denotes (the
  sign of zero is not kept: no operation below tells \<^verbatim>\<open>-0.0\<close> from \<^verbatim>\<open>0.0\<close>).
\<close>

definition pow2 :: "int \<Rightarrow> rat" where
  "pow2 k = 2 powi k"

definition floor_log2 :: "rat \<Rightarrow> int" where
  "floor_log2 q =
     (case quotient_of q of
        (a, b) \<Rightarrow> let k = bitlen a - bitlen b in if pow2 k \<le> q then k else k - 1)"

definition round_half_even :: "rat \<Rightarrow> int" where
  "round_half_even x =
     (let f = \<lfloor>x\<rfloor>; r = x - of_int f
      in if r < 1 / 2 then f else if 1 / 2 < r then f + 1 else if even f then f else f + 1)"

datatype float = Finite rat | PosInf | NegInf | NaN

definition ulp_exponent :: "rat \<Rightarrow> int" where
  "ulp_exponent q = max (floor_log2 q - 52) (- 1074)"

definition nearest :: "rat \<Rightarrow> rat" where
  "nearest q = of_int (round_half_even (q / pow2 (ulp_exponent q))) * pow2 (ulp_exponent q)"

definition round_double :: "rat \<Rightarrow> float" where
  "round_double q =
     (if q = 0 then Finite 0
      else if 0 < q then (if pow2 1024 \<le> nearest q then PosInf else Finite (nearest q))
      else (if pow2 1024 \<le> nearest (- q) then NegInf else Finite (- nearest (- q))))"

fun float_le :: "float \<Rightarrow> float \<Rightarrow> bool" where
  "float_le NaN y = False"
| "float_le x NaN = False"
| "float_le NegInf y = True"
| "float_le x PosInf = True"
| "float_le (Finite a) (Finite b) = (a \<le> b)"
| "float_le x y = False"


definition int_to_float :: "int \<Rightarrow> exn + float" where
  "int_to_float n =
     (case round_double (of_int n) of
        Finite r \<Rightarrow> Inr (Finite r)
      | _ \<Rightarrow> Inl (Exn OverflowError ''int too large to convert to float''))"

definition true_divide :: "int \<Rightarrow> int \<Rightarrow> exn + float" where
  "true_divide a b =
     (if b = 0 then Inl (Exn ZeroDivisionError ''division by zero'')
      else case round_double (of_int a / of_int b) of
             Finite r \<Rightarrow> Inr (Finite r)
           | _ \<Rightarrow> Inl (Exn OverflowError ''integer division result too large for a float''))"

fun float_mul :: "float \<Rightarrow> float \<Rightarrow> float" where
  "float_mul (Finite a) (Finite b) = round_double (a * b)"
| "float_mul NaN y = NaN"
| "float_mul x NaN = NaN"
| "float_mul (Finite a) PosInf = (if a = 0 then NaN else if 0 < a then PosInf else NegInf)"
| "float_mul (Finite a) NegInf = (if a = 0 then NaN else if 0 < a then NegInf else PosInf)"
| "float_mul PosInf (Finite b) = (if b = 0 then NaN else if 0 < b then PosInf else NegInf)"
| "float_mul NegInf (Finite b) = (if b = 0 then NaN else if 0 < b then NegInf else PosInf)"
| "float_mul PosInf PosInf = PosInf"
| "float_mul NegInf NegInf = PosInf"
| "float_mul PosInf NegInf = NegInf"
| "float_mul NegInf PosInf = NegInf"

definition int_mul_float :: "int \<Rightarrow> float \<Rightarrow> exn + float" where
  "int_mul_float n x = (case int_to_float n of Inl e \<Rightarrow> Inl e | Inr f \<Rightarrow> Inr (float_mul f x))"

fun float_to_int :: "float \<Rightarrow> exn + int" where
  "float_to_int (Finite r) = Inr (if 0 \<le> r then \<lfloor>r\<rfloor> else \<lceil>r\<rceil>)"
| "float_to_int NaN = Inl (Exn ValueError ''cannot convert float NaN to integer'')"
| "float_to_int x = Inl (Exn OverflowError ''cannot convert float infinity to integer'')"

section \<open>\<^verbatim>\<open>calculate_video_dimensions\<close> in \<^verbatim>\<open>ffmpeg_stream.py\<close>\<close>

definition target_heights :: "(string \<times> int) list" where
  "target_heights = [(''720p'', 720), (''480p'', 480), (''360p'', 360)]"

definition calculate_video_dimensions :: "int \<Rightarrow> int \<Rightarrow> string \<Rightarrow> exn + int \<times> int" where
  "calculate_video_dimensions original_width original_height target_resolution =
     (case map_of target_heights target_resolution of
        None \<Rightarrow> Inl (Exn ValueError (''Unsupported resolution: '' @ target_resolution))
      | Some target_height \<Rightarrow>
          (case true_divide original_width original_height of
             Inl x \<Rightarrow> Inl x
           | Inr aspect_ratio \<Rightarrow>
               (case int_mul_float target_height aspect_ratio of
                  Inl x \<Rightarrow> Inl x
                | Inr product \<Rightarrow>
                    (case float_to_int product of
                       Inl x \<Rightarrow> Inl x
                     | Inr target_width \<Rightarrow>
                         Inr (if target_width mod 2 \<noteq> 0 then target_width + 1 else target_width,
                              if target_height mod 2 \<noteq> 0 then target_height + 1
                              else target_height)))))"

section \<open>\<^verbatim>\<open>estimate_output_size\<close> in \<^verbatim>\<open>ffmpeg_utils.py\<close>\<close>

text \<open>
  The function returns a float on the branches that multiply and the integer it was given
  on the others. Python compares an \<^verbatim>\<open>int\<close> and a \<^verbatim>\<open>float\<close> by their exact values.
\<close>

datatype number = PyInt int | PyFloat float

fun as_float :: "number \<Rightarrow> float" where
  "as_float (PyInt n) = Finite (of_int n)"
| "as_float (PyFloat x) = x"

definition number_le :: "number \<Rightarrow> number \<Rightarrow> bool" where
  "number_le x y = float_le (as_float x) (as_float y)"



section \<open>Vocabulary of the properties\<close>

definition spawned :: "run \<Rightarrow> bool" where
  "spawned r = (proc r \<noteq> NotSpawned)"

text \<open>\<^verbatim>\<open>process.wait()\<close> comes back before \<^verbatim>\<open>wait_for\<close> gives up.\<close>

definition exit_seen :: "env \<Rightarrow> bool" where
  "exit_seen e =
     (case proc_wait e of
        Returns dw returncode \<Rightarrow> dw < processing_timeout
      | Raises dw x \<Rightarrow> dw < processing_timeout
      | Never \<Rightarrow> False)"

text \<open>
  The bytes handed to \<^verbatim>\<open>process.stdin.write\<close> that the child process has not taken:
  they sit in the writer's buffer.
\<close>

definition stdin_backlog :: "env \<Rightarrow> feed \<Rightarrow> nat" where
  "stdin_backlog e f = sum_list (map length (written f)) - stdin_accepts e"

section \<open>Sample environments\<close>

text \<open>A decoder that agrees with \<^verbatim>\<open>bytes.decode()\<close> on ASCII input, where it is used.\<close>

definition decode_ascii :: "bytes \<Rightarrow> exn + string" where
  "decode_ascii bs =
     (if \<forall>b \<in> set bs. b < 128 then Inr (map (\<lambda>b. char_of (unat b)) bs)
      else Inl (Exn UnicodeDecodeError ''invalid start byte''))"

text \<open>
  Nothing to stream, no observer, a child process that writes nothing and exits with
  code 0 at once, and collaborators that never fail.
\<close>

definition quiet_env :: env where
  "quiet_env =
     \<lparr>file_size = 0, media = [], media_end = Returns 0 (), spawn = Returns 0 (),
      progress_callback = None, stdin_accepts = 0, stdout_data = [],
      stdout_avail = (\<lambda>i. (0, 1)), stdout_end = Returns 0 (),
      sink_write = (\<lambda>i. Returns 0 ()), proc_wait = Returns 0 0, stderr_data = [],
      decode = decode_ascii, kill_raises = None, reply_video = Returns 0 ()\<rparr>"

text \<open>A video one byte over the limit.\<close>

definition oversized_env :: env where
  "oversized_env = quiet_env\<lparr>file_size := max_file_size + 1\<rparr>"

text \<open>Three bytes of output, and a temporary file that cannot be written.\<close>

definition full_disk_env :: env where
  "full_disk_env =
     quiet_env\<lparr>stdout_data := [1, 2, 3],
               sink_write := (\<lambda>i. Raises 0 (Exn OtherError ''No space left on device''))\<rparr>"

text \<open>Exit code 1 with \<open>bad codec\<close> on standard error.\<close>

definition bad_codec_env :: env where
  "bad_codec_env =
     quiet_env\<lparr>proc_wait := Returns 0 1,
               stderr_data := [98, 97, 100, 32, 99, 111, 100, 101, 99]\<rparr>"

text \<open>One byte of output, which comes after 1000 ticks.\<close>

definition late_output_env :: env where
  "late_output_env = quiet_env\<lparr>stdout_data := [1], stdout_avail := (\<lambda>i. (1000, 1))\<rparr>"

text \<open>An observer that takes 1000 ticks per call, and one that takes none.\<close>

definition slow_observer :: "nat option \<Rightarrow> nat option \<Rightarrow> unit await" where
  "slow_observer a b = Returns 1000 ()"

definition prompt_observer :: "nat option \<Rightarrow> nat option \<Rightarrow> unit await" where
  "prompt_observer a b = Returns 0 ()"

text \<open>
  Three chunks of 1 MiB to stream, and a child process that takes nothing from its input
  and never closes its output.
\<close>

definition stalled_env :: env where
  "stalled_env =
     quiet_env\<lparr>file_size := 3145728,
               media := [(0, replicate 1048576 0), (0, replicate 1048576 0),
                         (0, replicate 1048576 0)],
               stdout_end := Never\<rparr>"

section \<open>The read loop keeps the order of the output\<close>

declare drain_loop.simps [simp del]

lemmas run_defs = process_with_ffmpeg_def await_feed_task_def wait_and_check_def wait_for_def
  check_exit_def failing_def handlers_def kill_def feed_input_def notify_def
  processing_timeout_def chunk_size_def max_file_size_def stream_from_telegram_def
  process_video_stream_def send_processed_video_def stdout_read_def

lemma take_drop_length: "take n xs @ drop (length (take n xs)) xs = xs"
  by (cases "n \<le> length xs") (simp_all add: min_def)

lemma stdout_read_split: "stdout_read e i chunk_size pending @ drop (length (stdout_read e i chunk_size pending)) pending = pending"
  unfolding stdout_read_def by (rule take_drop_length)

lemma drain_loop_nil:
  "drain_loop e i [] ob t =
     (case stdout_end e of
        Returns d u \<Rightarrow> ([], Eof (t + d))
      | Raises d x \<Rightarrow> ([], Failed (t + d) (read_failed x))
      | Never \<Rightarrow> ([], Stuck))"
  by (subst drain_loop.simps) simp

lemma drain_loop_step:
  assumes "pending \<noteq> []" and "sink_write e i = Returns ds u"
    and "notify e None (Some (ob + length (stdout_read e i chunk_size pending))) = Returns dc u'"
  shows "drain_loop e i pending ob t =
     (stdout_read e i chunk_size pending #
        fst (drain_loop e (i + 1) (drop (length (stdout_read e i chunk_size pending)) pending)
               (ob + length (stdout_read e i chunk_size pending)) (t + fst (stdout_avail e i) + ds + dc)),
      snd (drain_loop e (i + 1) (drop (length (stdout_read e i chunk_size pending)) pending)
               (ob + length (stdout_read e i chunk_size pending)) (t + fst (stdout_avail e i) + ds + dc)))"
  using assms
  by (subst drain_loop.simps) (simp add: Let_def stdout_read_def split: prod.splits)

lemma drain_loop_stop:
  assumes "pending \<noteq> []"
    and "\<forall>ds u. sink_write e i = Returns ds u \<longrightarrow>
           (\<forall>dc u'. notify e None (Some (ob + length (stdout_read e i chunk_size pending))) \<noteq> Returns dc u')"
  shows "fst (drain_loop e i pending ob t) = [stdout_read e i chunk_size pending]
       \<and> (\<forall>t'. snd (drain_loop e i pending ob t) \<noteq> Eof t')"
  using assms
  by (subst (1 2) drain_loop.simps) (auto simp add: Let_def stdout_read_def split: await.splits)

lemma drain_loop_prefix:
  "prefix (concat (fst (drain_loop e i pending ob t))) pending"
proof (induction e i pending ob t rule: drain_loop.induct)
  case (1 e i pending ob t)
  let ?chunk = "stdout_read e i chunk_size pending"
  consider (nil) "pending = []"
    | (step) ds u dc u' where "pending \<noteq> []" "sink_write e i = Returns ds u"
        "notify e None (Some (ob + length ?chunk)) = Returns dc u'"
    | (stop) "pending \<noteq> []" "\<forall>ds u. sink_write e i = Returns ds u \<longrightarrow>
           (\<forall>dc u'. notify e None (Some (ob + length ?chunk)) \<noteq> Returns dc u')"
    by blast
  then show ?case
  proof cases
    case nil
    then show ?thesis by (simp add: drain_loop_nil split: await.splits)
  next
    case step
    have "prefix (concat (fst (drain_loop e (i + 1) (drop (length ?chunk) pending)
               (ob + length ?chunk) (t + fst (stdout_avail e i) + ds + dc))))
            (drop (length ?chunk) pending)"
      using "1.IH"[OF step(1) refl refl refl step(2)] step(3) by (simp add: stdout_read_def)
    then have "prefix (?chunk @ concat (fst (drain_loop e (i + 1) (drop (length ?chunk) pending)
               (ob + length ?chunk) (t + fst (stdout_avail e i) + ds + dc))))
            (?chunk @ drop (length ?chunk) pending)"
      by simp
    then show ?thesis
      by (simp add: drain_loop_step[OF step] stdout_read_split)
  next
    case stop
    have "prefix ?chunk pending" by (simp add: stdout_read_def take_is_prefix)
    then show ?thesis using drain_loop_stop[OF stop, of t] by simp
  qed
qed

lemma drain_loop_eof:
  "snd (drain_loop e i pending ob t) = Eof t' \<Longrightarrow> concat (fst (drain_loop e i pending ob t)) = pending"
proof (induction e i pending ob t rule: drain_loop.induct)
  case (1 e i pending ob t)
  let ?chunk = "stdout_read e i chunk_size pending"
  consider (nil) "pending = []"
    | (step) ds u dc u' where "pending \<noteq> []" "sink_write e i = Returns ds u"
        "notify e None (Some (ob + length ?chunk)) = Returns dc u'"
    | (stop) "pending \<noteq> []" "\<forall>ds u. sink_write e i = Returns ds u \<longrightarrow>
           (\<forall>dc u'. notify e None (Some (ob + length ?chunk)) \<noteq> Returns dc u')"
    by blast
  then show ?case
  proof cases
    case nil
    then show ?thesis by (simp add: drain_loop_nil split: await.splits)
  next
    case step
    have "snd (drain_loop e (i + 1) (drop (length ?chunk) pending)
               (ob + length ?chunk) (t + fst (stdout_avail e i) + ds + dc)) = Eof t'"
      using "1.prems" by (simp add: drain_loop_step[OF step])
    then have "concat (fst (drain_loop e (i + 1) (drop (length ?chunk) pending)
               (ob + length ?chunk) (t + fst (stdout_avail e i) + ds + dc)))
            = drop (length ?chunk) pending"
      using "1.IH"[OF step(1) refl refl refl step(2)] step(3) by (simp add: stdout_read_def)
    then show ?thesis
      by (simp add: drain_loop_step[OF step] stdout_read_split)
  next
    case stop
    then show ?thesis using drain_loop_stop[OF stop, of t] "1.prems" by simp
  qed
qed

lemma failing_sel [simp]:
  "yielded (failing e p f chunks t x) = chunks"
  "feeder (failing e p f chunks t x) = f"
  "proc (failing e p f chunks t x) = fst (kill e p)"
  "outcome (failing e p f chunks t x) =
     Raised t (case snd (kill e p) of
                 Some k \<Rightarrow> k
               | None \<Rightarrow> if kind x = TimeoutError then timed_out else processing_failed x)"
  by (simp_all add: failing_def handlers_def split: prod.splits option.splits)

lemma kill_simps [simp]:
  "kill e NotSpawned = (NotSpawned, None)"
  "kill e Running = (case kill_raises e of None \<Rightarrow> (Killed, None) | Some k \<Rightarrow> (Exited, Some k))"
  "kill e Exited = (Exited, Some process_gone)"
  "kill e Killed = (Killed, None)"
  by (simp_all add: kill_def)

lemma wait_and_check_sel [simp]:
  "yielded (wait_and_check e f chunks t) = chunks"
  "feeder (wait_and_check e f chunks t) = Some f"
  by (simp_all add: wait_and_check_def split: await.splits option.splits)

lemma await_feed_task_sel [simp]:
  "yielded (await_feed_task e f chunks t) = chunks"
  "feeder (await_feed_task e f chunks t) = Some f"
  by (simp_all add: await_feed_task_def split: await.splits)

lemma process_with_ffmpeg_spawned:
  assumes "spawn e = Returns d u" and "drain_loop e 0 (stdout_data e) 0 d = (chunks, r)"
  shows "process_with_ffmpeg e s =
     (case r of
        Stuck \<Rightarrow> \<lparr>proc = Running, feeder = Some (feed_input e s d), yielded = chunks,
                  outcome = Hangs\<rparr>
      | Abandoned t x \<Rightarrow> \<lparr>proc = Running, feeder = Some (feed_input e s d), yielded = chunks,
                  outcome = Dropped t x\<rparr>
      | Failed t x \<Rightarrow> failing e Running (Some (feed_input e s d)) chunks t x
      | Eof t \<Rightarrow> await_feed_task e (feed_input e s d) chunks t)"
  using assms by (simp add: process_with_ffmpeg_def Let_def split: drained.splits)

lemma yielded_process_with_ffmpeg:
  "yielded (process_with_ffmpeg e s) =
     (case spawn e of Returns d u \<Rightarrow> fst (drain_loop e 0 (stdout_data e) 0 d) | _ \<Rightarrow> [])"
proof (cases "spawn e")
  case (Returns d u)
  obtain chunks r where dl: "drain_loop e 0 (stdout_data e) 0 d = (chunks, r)"
    by (cases "drain_loop e 0 (stdout_data e) 0 d")
  show ?thesis
    by (cases r) (simp_all add: process_with_ffmpeg_spawned[OF Returns dl] Returns dl)
qed (simp_all add: process_with_ffmpeg_def)

lemma completed_wait_and_check:
  "outcome (wait_and_check e f chunks t) = Completed t' \<Longrightarrow>
     \<exists>dw. proc_wait e = Returns dw 0 \<and> dw < processing_timeout \<and> t' = t + dw"
  by (auto simp add: wait_and_check_def wait_for_def check_exit_def
        split: await.splits option.splits if_splits sum.splits)

lemma completed_await_feed_task:
  "outcome (await_feed_task e f chunks t) = Completed t' \<Longrightarrow>
     \<exists>tf u. feed_result f = Returns tf u"
  by (auto simp add: await_feed_task_def split: await.splits)

lemma completed_process_with_ffmpeg:
  assumes "outcome (process_with_ffmpeg e s) = Completed t"
  shows "\<exists>d u t'. spawn e = Returns d u \<and> snd (drain_loop e 0 (stdout_data e) 0 d) = Eof t'"
proof (cases "spawn e")
  case (Returns d u)
  obtain chunks r where dl: "drain_loop e 0 (stdout_data e) 0 d = (chunks, r)"
    by (cases "drain_loop e 0 (stdout_data e) 0 d")
  show ?thesis using assms
    by (cases r) (simp_all add: process_with_ffmpeg_spawned[OF Returns dl] Returns dl)
qed (use assms in \<open>simp_all add: process_with_ffmpeg_def\<close>)

text \<open>
  Claim C7. Whatever the environment, the chunks the generator yields, put end to end in
  the order of the yields, are an initial segment of the bytes the child process wrote to
  its standard output; when the generator runs to its end they are exactly those bytes:
  nothing reordered, dropped or repeated.
\<close>

theorem output_order_preserved:
  "prefix (concat (yielded (process_with_ffmpeg e s))) (stdout_data e) \<and>
   (outcome (process_with_ffmpeg e s) = Completed t \<longrightarrow>
      concat (yielded (process_with_ffmpeg e s)) = stdout_data e)"
proof
  show "prefix (concat (yielded (process_with_ffmpeg e s))) (stdout_data e)"
    by (cases "spawn e") (simp_all add: yielded_process_with_ffmpeg drain_loop_prefix)
next
  show "outcome (process_with_ffmpeg e s) = Completed t \<longrightarrow>
      concat (yielded (process_with_ffmpeg e s)) = stdout_data e"
  proof
    assume "outcome (process_with_ffmpeg e s) = Completed t"
    then obtain d u t' where sp: "spawn e = Returns d u"
      and "snd (drain_loop e 0 (stdout_data e) 0 d) = Eof t'"
      using completed_process_with_ffmpeg by blast
    then show "concat (yielded (process_with_ffmpeg e s)) = stdout_data e"
      by (simp add: yielded_process_with_ffmpeg drain_loop_eof)
  qed
qed

theorem output_order_preserved_witness:
  "outcome (process_with_ffmpeg
      (quiet_env\<lparr>stdout_data := [1, 2, 3], stdout_avail := (\<lambda>i. (0, 2))\<rparr>) ([], Returns 0 ()))
     = Completed 0
   \<and> yielded (process_with_ffmpeg
      (quiet_env\<lparr>stdout_data := [1, 2, 3], stdout_avail := (\<lambda>i. (0, 2))\<rparr>) ([], Returns 0 ()))
     = [[1, 2], [3]]
   \<and> concat (yielded (process_with_ffmpeg
      (quiet_env\<lparr>stdout_data := [1, 2, 3], stdout_avail := (\<lambda>i. (0, 2))\<rparr>) ([], Returns 0 ())))
     = [1, 2, 3]"
proof -
  let ?e = "quiet_env\<lparr>stdout_data := [1, 2, 3], stdout_avail := (\<lambda>i. (0, 2))\<rparr>"
  have r: "process_with_ffmpeg ?e ([], Returns 0 ()) =
      \<lparr>proc = Exited,
       feeder = Some \<lparr>written = [], write_times = [], stdin_closed = True,
                      feed_result = Returns 0 ()\<rparr>,
       yielded = [[1, 2], [3]], outcome = Completed 0\<rparr>"
    by (simp add: run_defs quiet_env_def drain_loop.simps Let_def)
  have "concat (yielded (process_with_ffmpeg ?e ([], Returns 0 ()))) = stdout_data ?e"
    using output_order_preserved [of ?e "([], Returns 0 ())" 0] r by simp
  then show ?thesis using r by (simp add: quiet_env_def)
qed

section \<open>The size check and the spawn (C1)\<close>

lemma stream_from_telegram_too_large:
  "file_size e > max_file_size \<Longrightarrow>
     stream_from_telegram e = ([], Raises 0 (stream_failed too_large))"
  by (simp add: stream_from_telegram_def)

lemma feed_input_too_large:
  "file_size e > max_file_size \<Longrightarrow>
     feed_input e (stream_from_telegram e) d =
       \<lparr>written = [], write_times = [], stdin_closed = False,
        feed_result = Raises d (stream_failed too_large)\<rparr>"
  by (simp add: stream_from_telegram_too_large feed_input_def)

lemma kind_stream_failed [simp]: "kind (stream_failed x) = RuntimeError"
  by (simp add: stream_failed_def)

lemma send_processed_video_Returns:
  "send_processed_video e g = Returns t u \<Longrightarrow> \<exists>t'. g = Completed t'"
  by (cases g) (simp_all add: send_processed_video_def split: await.splits)

lemma outcome_await_feed_task_Raises:
  "feed_result f = Raises tf x \<Longrightarrow>
     await_feed_task e f chunks t = failing e Running (Some f) chunks (max t tf) x"
  by (simp add: await_feed_task_def)

text \<open>
  Claim C1, as stated, fails. A video one byte over the limit, with a child process that
  starts and closes its output at once: the process is spawned (and killed afterwards);
  the size check only runs when the feeder task, created after the process, pulls its
  first chunk.
\<close>

theorem oversized_file_spawns_process:
  "max_file_size < file_size oversized_env
   \<and> spawned (fst (process_video_stream oversized_env))
   \<and> process_video_stream oversized_env =
       (\<lparr>proc = Killed,
         feeder = Some \<lparr>written = [], write_times = [], stdin_closed = False,
                        feed_result = Raises 0 (stream_failed too_large)\<rparr>,
         yielded = [],
         outcome = Raised 0 (processing_failed (stream_failed too_large))\<rparr>,
        Raises 0 (send_failed (processing_failed (stream_failed too_large))))"
  by (simp add: run_defs spawned_def oversized_env_def quiet_env_def drain_loop.simps Let_def
        stream_failed_def)

text \<open>
  Claim C1, amended. For every video whose \<open>file_size\<close> exceeds \<open>max_file_size\<close>: the
  child process is spawned exactly when \<^verbatim>\<open>create_subprocess_exec\<close> succeeds, whatever
  the size; the feeder writes no chunk to the process; the run never returns a message;
  and when the output of the process reaches end of stream and \<^verbatim>\<open>kill()\<close> does not
  raise, the run kills the process and raises the \<open>File too large\<close> error, wrapped by
  each of the three layers.
\<close>

theorem size_check_runs_in_feeder:
  assumes "file_size e > max_file_size"
  shows "(spawned (fst (process_video_stream e)) \<longleftrightarrow> (\<exists>d. spawn e = Returns d ()))
    \<and> (\<forall>f. feeder (fst (process_video_stream e)) = Some f \<longrightarrow>
           written f = [] \<and> \<not> stdin_closed f)
    \<and> (\<forall>t. snd (process_video_stream e) \<noteq> Returns t ())
    \<and> (\<forall>d td. spawn e = Returns d () \<and> snd (drain_loop e 0 (stdout_data e) 0 d) = Eof td
           \<and> kill_raises e = None \<longrightarrow>
         proc (fst (process_video_stream e)) = Killed \<and>
         snd (process_video_stream e) =
           Raises (max td d) (send_failed (processing_failed (stream_failed too_large))))"
proof -
  let ?s = "stream_from_telegram e"
  let ?r = "process_with_ffmpeg e ?s"
  have pvs: "process_video_stream e = (?r, send_processed_video e (outcome ?r))"
    by (simp add: process_video_stream_def Let_def)
  have fi: "\<And>d. feed_input e ?s d =
       \<lparr>written = [], write_times = [], stdin_closed = False,
        feed_result = Raises d (stream_failed too_large)\<rparr>"
    using assms by (rule feed_input_too_large)
  have main: "(spawned ?r \<longleftrightarrow> (\<exists>d. spawn e = Returns d ()))
    \<and> (\<forall>f. feeder ?r = Some f \<longrightarrow> written f = [] \<and> \<not> stdin_closed f)
    \<and> (\<forall>t. outcome ?r \<noteq> Completed t)
    \<and> (\<forall>d td. spawn e = Returns d () \<and> snd (drain_loop e 0 (stdout_data e) 0 d) = Eof td
           \<and> kill_raises e = None \<longrightarrow>
         proc ?r = Killed \<and>
         outcome ?r = Raised (max td d) (processing_failed (stream_failed too_large)))"
  proof (cases "spawn e")
    case (Returns d u)
    obtain chunks r where dl: "drain_loop e 0 (stdout_data e) 0 d = (chunks, r)"
      by (cases "drain_loop e 0 (stdout_data e) 0 d")
    show ?thesis
      by (cases r)
         (auto simp add: process_with_ffmpeg_spawned[OF Returns dl] Returns dl fi spawned_def
            await_feed_task_def split: option.splits)
  next
    case (Raises d x)
    then show ?thesis by (simp add: process_with_ffmpeg_def spawned_def)
  next
    case Never
    then show ?thesis by (simp add: process_with_ffmpeg_def spawned_def)
  qed
  have "\<forall>t. snd (process_video_stream e) \<noteq> Returns t ()"
    using main send_processed_video_Returns[of e "outcome ?r"] by (auto simp add: pvs)
  moreover have "\<forall>d td. spawn e = Returns d () \<and> snd (drain_loop e 0 (stdout_data e) 0 d) = Eof td
           \<and> kill_raises e = None \<longrightarrow>
         proc (fst (process_video_stream e)) = Killed \<and>
         snd (process_video_stream e) =
           Raises (max td d) (send_failed (processing_failed (stream_failed too_large)))"
    using main by (auto simp add: pvs send_processed_video_def)
  ultimately show ?thesis using main unfolding pvs fst_conv by blast
qed

text \<open>Claim C1, amended: the theorem at a video of 3 000 000 000 bytes.\<close>

theorem size_check_runs_in_feeder_witness:
  "max_file_size < file_size (quiet_env\<lparr>file_size := 3000000000\<rparr>)
   \<and> spawn (quiet_env\<lparr>file_size := 3000000000\<rparr>) = Returns 0 ()
   \<and> snd (drain_loop (quiet_env\<lparr>file_size := 3000000000\<rparr>) 0
            (stdout_data (quiet_env\<lparr>file_size := 3000000000\<rparr>)) 0 0) = Eof 0
   \<and> kill_raises (quiet_env\<lparr>file_size := 3000000000\<rparr>) = None
   \<and> spawned (fst (process_video_stream (quiet_env\<lparr>file_size := 3000000000\<rparr>)))
   \<and> proc (fst (process_video_stream (quiet_env\<lparr>file_size := 3000000000\<rparr>))) = Killed
   \<and> snd (process_video_stream (quiet_env\<lparr>file_size := 3000000000\<rparr>)) =
        Raises 0 (send_failed (processing_failed (stream_failed too_large)))"
proof -
  let ?e = "quiet_env\<lparr>file_size := 3000000000\<rparr>"
  have h: "max_file_size < file_size ?e"
    by (simp add: quiet_env_def max_file_size_def)
  have s: "spawn ?e = Returns 0 ()" and k: "kill_raises ?e = None"
    by (simp_all add: quiet_env_def)
  have d: "snd (drain_loop ?e 0 (stdout_data ?e) 0 0) = Eof 0"
    by (simp add: quiet_env_def drain_loop.simps)
  show ?thesis
    using size_check_runs_in_feeder [OF h] h s k d by auto
qed

section \<open>After the read loop: cleanup, exit code and timeout (C3, C6, C2)\<close>

lemma process_with_ffmpeg_drained:
  assumes "spawn e = Returns d u"
    and "snd (drain_loop e 0 (stdout_data e) 0 d) = Eof td"
    and "feed_result (feed_input e s d) = Returns tf u'"
  shows "process_with_ffmpeg e s =
     wait_and_check e (feed_input e s d) (fst (drain_loop e 0 (stdout_data e) 0 d)) (max td tf)"
proof -
  obtain chunks r where dl: "drain_loop e 0 (stdout_data e) 0 d = (chunks, r)"
    by (cases "drain_loop e 0 (stdout_data e) 0 d")
  with assms(2) have "r = Eof td" by simp
  then show ?thesis
    using assms(3) by (simp add: process_with_ffmpeg_spawned[OF assms(1) dl] dl await_feed_task_def)
qed

text \<open>
  Claim C3 at an input where the code departs from it. The child process writes three
  bytes; writing the first chunk to the temporary file fails. The run returns the
  \<open>RuntimeError\<close> of \<^verbatim>\<open>send_processed_video\<close> while the process has been neither
  waited for nor killed: the generator is dropped at its \<^verbatim>\<open>yield\<close>, and both
  \<^verbatim>\<open>except\<close> clauses that call \<^verbatim>\<open>process.kill()\<close> are passed by.
\<close>

theorem consumer_failure_leaves_process_running:
  "process_video_stream full_disk_env =
     (\<lparr>proc = Running,
       feeder = Some \<lparr>written = [], write_times = [], stdin_closed = True,
                      feed_result = Returns 0 ()\<rparr>,
       yielded = [[1]],
       outcome = Dropped 0 (Exn OtherError ''No space left on device'')\<rparr>,
      Raises 0 (send_failed (Exn OtherError ''No space left on device'')))"
  by (simp add: run_defs full_disk_env_def quiet_env_def drain_loop.simps Let_def)

lemma generator_end_not_running:
  "outcome (process_with_ffmpeg e s) = Completed t \<or> outcome (process_with_ffmpeg e s) = Raised t x
     \<Longrightarrow> proc (process_with_ffmpeg e s) \<noteq> Running"
proof (cases "spawn e")
  case (Returns d u)
  assume a: "outcome (process_with_ffmpeg e s) = Completed t \<or> outcome (process_with_ffmpeg e s) = Raised t x"
  obtain chunks r where dl: "drain_loop e 0 (stdout_data e) 0 d = (chunks, r)"
    by (cases "drain_loop e 0 (stdout_data e) 0 d")
  show ?thesis using a
    by (cases r)
       (auto simp add: process_with_ffmpeg_spawned[OF Returns dl] await_feed_task_def
          wait_and_check_def split: await.splits option.splits)
qed (auto simp add: process_with_ffmpeg_def)

lemma ascii_chars:
  "char_of (98::nat) = CHR ''b''" "char_of (97::nat) = CHR ''a''"
  "char_of (100::nat) = CHR ''d''" "char_of (32::nat) = CHR '' ''"
  "char_of (99::nat) = CHR ''c''" "char_of (111::nat) = CHR ''o''"
  "char_of (101::nat) = CHR ''e''"
  by code_simp+

lemma check_exit_nonzero:
  "returncode \<noteq> 0 \<Longrightarrow> \<exists>x. check_exit e returncode = Some x"
  by (simp add: check_exit_def split: sum.splits)

lemma nonzero_exit_is_masked:
  assumes "spawn e = Returns d u"
    and "snd (drain_loop e 0 (stdout_data e) 0 d) = Eof td"
    and "feed_result (feed_input e s d) = Returns tf u'"
    and "proc_wait e = Returns dw returncode" and "dw < processing_timeout"
    and "returncode \<noteq> 0"
  shows "proc (process_with_ffmpeg e s) = Exited
    \<and> outcome (process_with_ffmpeg e s) = Raised (max td tf + dw) process_gone"
proof -
  obtain x where "check_exit e returncode = Some x"
    using check_exit_nonzero[OF assms(6)] by blast
  then show ?thesis
    using assms(4,5)
    by (simp add: process_with_ffmpeg_drained[OF assms(1-3)] wait_and_check_def wait_for_def)
qed

text \<open>
  Claim C6 at an input where the code departs from it. The child process exits with code
  1 and has written \<open>bad codec\<close> to its standard error. The code reads and decodes the
  text and builds \<open>FFmpeg processing failed: bad codec\<close>; the \<^verbatim>\<open>except\<close> clause that
  catches it then calls \<^verbatim>\<open>process.kill()\<close> on the process it has already waited for,
  which raises \<open>ProcessLookupError\<close> in place of the error built. The run ends with
  \<open>Failed to send processed video: \<close> and nothing of the text.
\<close>

theorem stderr_text_is_lost:
  "decode bad_codec_env (stderr_data bad_codec_env) = Inr ''bad codec''
   \<and> check_exit bad_codec_env 1 = Some (Exn RuntimeError ''FFmpeg processing failed: bad codec'')
   \<and> process_video_stream bad_codec_env =
     (\<lparr>proc = Exited,
       feeder = Some \<lparr>written = [], write_times = [], stdin_closed = True,
                      feed_result = Returns 0 ()\<rparr>,
       yielded = [],
       outcome = Raised 0 (Exn ProcessLookupError [])\<rparr>,
      Raises 0 (Exn RuntimeError ''Failed to send processed video: ''))"
  by (simp add: run_defs bad_codec_env_def quiet_env_def drain_loop.simps Let_def
        decode_ascii_def ffmpeg_failed_def process_gone_def send_failed_def ascii_chars)

text \<open>
  Claim C2, as stated, fails. The first read of the output takes 1000 ticks, more than
  the timeout of 300, and the process then exits with code 0: the run succeeds at tick
  1000; the process is not killed and no timeout is reported.
\<close>

theorem slow_output_is_not_timed_out:
  "processing_timeout < 1000
   \<and> process_video_stream late_output_env =
     (\<lparr>proc = Exited,
       feeder = Some \<lparr>written = [], write_times = [], stdin_closed = True,
                      feed_result = Returns 0 ()\<rparr>,
       yielded = [[1]],
       outcome = Completed 1000\<rparr>,
      Returns 1000 ())"
  by (simp add: run_defs late_output_env_def quiet_env_def drain_loop.simps Let_def)

text \<open>
  Claim C2, amended. The timeout bounds only the wait for the exit of the process, which
  starts once the read loop has reached end of stream (at \<open>td\<close>) and the feeder task has
  ended (at \<open>tf\<close>), however late that is: if \<^verbatim>\<open>process.wait()\<close> does not come back
  within \<open>processing_timeout\<close> ticks from then, the process is killed and the generator
  raises \<open>Processing timed out after 300 seconds\<close>; if it comes back in time with code
  0, the generator ends normally.
\<close>

theorem timeout_bounds_only_the_wait:
  assumes "spawn e = Returns d ()"
    and "snd (drain_loop e 0 (stdout_data e) 0 d) = Eof td"
    and "feed_result (feed_input e s d) = Returns tf ()"
  shows "(\<not> exit_seen e \<and> kill_raises e = None \<longrightarrow>
            proc (process_with_ffmpeg e s) = Killed \<and>
            outcome (process_with_ffmpeg e s) = Raised (max td tf + processing_timeout) timed_out)
    \<and> (proc_wait e = Returns dw 0 \<and> dw < processing_timeout \<longrightarrow>
            proc (process_with_ffmpeg e s) = Exited \<and>
            outcome (process_with_ffmpeg e s) = Completed (max td tf + dw))"
  by (cases "proc_wait e")
     (auto simp add: process_with_ffmpeg_drained[OF assms] wait_and_check_def wait_for_def
        check_exit_def exit_seen_def)

text \<open>
  Claim C2, amended: a process that never exits, and one that exits at once, each after a
  feeder that ends at tick 7.
\<close>

theorem timeout_bounds_only_the_wait_witness:
  "spawn (quiet_env\<lparr>proc_wait := Never\<rparr>) = Returns 0 ()
   \<and> \<not> exit_seen (quiet_env\<lparr>proc_wait := Never\<rparr>)
   \<and> kill_raises (quiet_env\<lparr>proc_wait := Never\<rparr>) = None
   \<and> proc (process_with_ffmpeg (quiet_env\<lparr>proc_wait := Never\<rparr>) ([], Returns 7 ())) = Killed
   \<and> outcome (process_with_ffmpeg (quiet_env\<lparr>proc_wait := Never\<rparr>) ([], Returns 7 ()))
       = Raised 307 timed_out
   \<and> proc_wait (quiet_env\<lparr>stdout_avail := (\<lambda>i. (0, 2))\<rparr>) = Returns 0 0
   \<and> outcome (process_with_ffmpeg (quiet_env\<lparr>stdout_avail := (\<lambda>i. (0, 2))\<rparr>) ([], Returns 7 ()))
       = Completed 7"
proof -
  let ?e = "quiet_env\<lparr>proc_wait := Never\<rparr>"
  let ?e' = "quiet_env\<lparr>stdout_avail := (\<lambda>i. (0, 2))\<rparr>"
  have 1: "spawn ?e = Returns 0 ()" and s2: "spawn ?e' = Returns 0 ()"
    by (simp_all add: quiet_env_def)
  have 2: "snd (drain_loop ?e 0 (stdout_data ?e) 0 0) = Eof 0"
    and d2: "snd (drain_loop ?e' 0 (stdout_data ?e') 0 0) = Eof 0"
    by (simp_all add: quiet_env_def drain_loop.simps)
  have 3: "feed_result (feed_input ?e ([], Returns 7 ()) 0) = Returns 7 ()"
    and f2: "feed_result (feed_input ?e' ([], Returns 7 ()) 0) = Returns 7 ()"
    by (simp_all add: feed_input_def)
  have 4: "\<not> exit_seen ?e" "kill_raises ?e = None"
    by (simp_all add: exit_seen_def quiet_env_def)
  have 5: "proc_wait ?e' = Returns 0 0" "(0::nat) < processing_timeout"
    by (simp_all add: quiet_env_def processing_timeout_def)
  show ?thesis
    using timeout_bounds_only_the_wait [OF 1 2 3, of 0]
      timeout_bounds_only_the_wait [OF s2 d2 f2, of 0] 1 4 5
    by (simp add: processing_timeout_def)
qed

section \<open>Empty input, the observer and the writes of the feeder (C8, C5, C4)\<close>

lemma drain_loop_reaches_eof:
  assumes "stdout_end e = Returns de u"
    and "\<forall>i. \<exists>ds u. sink_write e i = Returns ds u"
    and "\<forall>b. \<exists>dc u. notify e None (Some b) = Returns dc u"
  shows "\<exists>t'. snd (drain_loop e i pending ob t) = Eof t'"
  using assms
proof (induction e i pending ob t rule: drain_loop.induct)
  case (1 e i pending ob t)
  show ?case
  proof (cases "pending = []")
    case True
    then show ?thesis using "1.prems"(1) by (simp add: drain_loop_nil)
  next
    case False
    let ?chunk = "stdout_read e i chunk_size pending"
    obtain ds u1 where sw: "sink_write e i = Returns ds u1"
      using "1.prems"(2) by blast
    obtain dc u2 where nt: "notify e None (Some (ob + length ?chunk)) = Returns dc u2"
      using "1.prems"(3) by blast
    have "\<exists>t'. snd (drain_loop e (i + 1) (drop (length ?chunk) pending) (ob + length ?chunk)
                  (t + fst (stdout_avail e i) + ds + dc)) = Eof t'"
      using "1.IH"[OF False refl refl refl sw nt "1.prems"] .
    then show ?thesis by (simp add: drain_loop_step[OF False sw nt])
  qed
qed

text \<open>
  Claim C8. A video of declared size 0 whose stream yields no chunk: the feeder writes
  nothing and closes the input of the process as soon as the stream is exhausted; if the
  process closes its output and exits with code 0 before the timeout (and the temporary
  file, the observer and the reply do not fail), the generator ends normally and the run
  returns.
\<close>

theorem empty_input_is_a_valid_run:
  assumes "file_size e = 0" and "media e = []" and "media_end e = Returns d0 ()"
    and "spawn e = Returns d ()"
    and "stdout_end e = Returns de ()"
    and "\<forall>i. \<exists>ds. sink_write e i = Returns ds ()"
    and "\<forall>b. \<exists>dc. notify e None (Some b) = Returns dc ()"
    and "proc_wait e = Returns dw 0" and "dw < processing_timeout"
    and "reply_video e = Returns dr ()"
  shows "feeder (fst (process_video_stream e)) =
           Some \<lparr>written = [], write_times = [], stdin_closed = True,
                 feed_result = Returns (d + d0) ()\<rparr>
    \<and> proc (fst (process_video_stream e)) = Exited
    \<and> (\<exists>t. outcome (fst (process_video_stream e)) = Completed t
           \<and> snd (process_video_stream e) = Returns (t + dr) ())"
proof -
  let ?s = "stream_from_telegram e"
  have s: "?s = ([], Returns d0 ())"
    using assms(1-3) by (simp add: stream_from_telegram_def max_file_size_def)
  have f: "feed_input e ?s d =
      \<lparr>written = [], write_times = [], stdin_closed = True, feed_result = Returns (d + d0) ()\<rparr>"
    by (simp add: s feed_input_def)
  obtain td where dl: "snd (drain_loop e 0 (stdout_data e) 0 d) = Eof td"
    using drain_loop_reaches_eof[of e de "()" 0 "stdout_data e" 0 d] assms(5-7) by auto
  have fr: "feed_result (feed_input e ?s d) = Returns (d + d0) ()"
    by (simp add: f)
  have "process_with_ffmpeg e ?s =
      \<lparr>proc = Exited, feeder = Some (feed_input e ?s d),
       yielded = fst (drain_loop e 0 (stdout_data e) 0 d),
       outcome = Completed (max td (d + d0) + dw)\<rparr>"
    using assms(8,9)
    by (simp add: process_with_ffmpeg_drained[OF assms(4) dl fr] wait_and_check_def wait_for_def
          check_exit_def)
  then show ?thesis
    using assms(10) f by (simp add: process_video_stream_def Let_def send_processed_video_def)
qed

text \<open>Claim C8: the theorem at the quiet environment.\<close>

theorem empty_input_is_a_valid_run_witness:
  "file_size quiet_env = 0 \<and> media quiet_env = [] \<and> media_end quiet_env = Returns 0 ()
   \<and> spawn quiet_env = Returns 0 () \<and> stdout_end quiet_env = Returns 0 ()
   \<and> proc_wait quiet_env = Returns 0 0 \<and> reply_video quiet_env = Returns 0 ()
   \<and> feeder (fst (process_video_stream quiet_env)) =
        Some \<lparr>written = [], write_times = [], stdin_closed = True, feed_result = Returns 0 ()\<rparr>
   \<and> snd (process_video_stream quiet_env) = Returns 0 ()"
proof -
  have h: "file_size quiet_env = 0" "media quiet_env = []" "media_end quiet_env = Returns 0 ()"
    "spawn quiet_env = Returns 0 ()" "stdout_end quiet_env = Returns 0 ()"
    "\<forall>i. \<exists>ds. sink_write quiet_env i = Returns ds ()"
    "\<forall>b. \<exists>dc. notify quiet_env None (Some b) = Returns dc ()"
    "proc_wait quiet_env = Returns 0 0" "(0::nat) < processing_timeout"
    "reply_video quiet_env = Returns 0 ()"
    by (simp_all add: quiet_env_def notify_def processing_timeout_def)
  have r: "snd (process_video_stream quiet_env) = Returns 0 ()"
    by (simp add: run_defs quiet_env_def drain_loop.simps Let_def)
  show ?thesis
    using empty_input_is_a_valid_run [OF h] h r by simp
qed

text \<open>
  Claim C5, as stated, fails. With every other delay at 0, an observer that takes 1000
  ticks per call moves the second write of the feeder from tick 0 to tick 1000, and the
  end of the read loop over two chunks from tick 0 to tick 2000.
\<close>

theorem slow_observer_delays_the_data_path:
  "write_times (feed_input (quiet_env\<lparr>progress_callback := Some slow_observer\<rparr>)
      ([(0, [1]), (0, [2])], Returns 0 ()) 0) = [0, 1000]
   \<and> write_times (feed_input (quiet_env\<lparr>progress_callback := Some prompt_observer\<rparr>)
      ([(0, [1]), (0, [2])], Returns 0 ()) 0) = [0, 0]
   \<and> drain_loop (quiet_env\<lparr>progress_callback := Some slow_observer\<rparr>) 0 [1, 2] 0 0
       = ([[1], [2]], Eof 2000)
   \<and> drain_loop (quiet_env\<lparr>progress_callback := Some prompt_observer\<rparr>) 0 [1, 2] 0 0
       = ([[1], [2]], Eof 0)"
  by (simp add: feed_input_def notify_def wrote_def quiet_env_def drain_loop.simps Let_def
        stdout_read_def chunk_size_def slow_observer_def prompt_observer_def)

lemma feed_loop_observed:
  assumes "progress_callback e = Some (\<lambda>a b. Returns dc ())"
  shows "feed_result (feed_loop e items (Returns de ()) total_bytes t) =
           Returns (t + sum_list (map fst items) + length items * dc + de) ()
       \<and> (\<forall>k < length items.
            write_times (feed_loop e items fin total_bytes t) ! k =
              t + sum_list (map fst (take (Suc k) items)) + k * dc)"
proof (induction items arbitrary: total_bytes t)
  case Nil
  then show ?case by simp
next
  case (Cons a items)
  obtain d chunk where a: "a = (d, chunk)" by (cases a)
  have n: "\<And>x. notify e (Some x) None = Returns dc ()"
    using assms by (simp add: notify_def)
  have step: "\<And>fin. feed_loop e ((d, chunk) # items) fin total_bytes t =
      wrote chunk (t + d) (feed_loop e items fin (total_bytes + length chunk) (t + d + dc))"
    by (simp add: n Let_def)
  have 1: "feed_result (feed_loop e (a # items) (Returns de ()) total_bytes t) =
           Returns (t + sum_list (map fst (a # items)) + length (a # items) * dc + de) ()"
    using Cons.IH[of "total_bytes + length chunk" "t + d + dc"]
    unfolding a step by (simp add: wrote_def algebra_simps)
  have 2: "write_times (feed_loop e (a # items) fin total_bytes t) ! k =
              t + sum_list (map fst (take (Suc k) (a # items))) + k * dc"
    if "k < length (a # items)" for k
  proof (cases k)
    case 0
    then show ?thesis unfolding a step by (simp add: wrote_def)
  next
    case (Suc j)
    then have "j < length items" using that by simp
    then show ?thesis
      using Cons.IH[of "total_bytes + length chunk" "t + d + dc"] Suc
      unfolding a step by (simp add: wrote_def algebra_simps)
  qed
  show ?case using 1 2 by blast
qed

lemma drain_loop_observed:
  assumes "progress_callback e = Some (\<lambda>a b. Returns dc ())"
  shows "snd (drain_loop e i pending ob t) = Eof t' \<Longrightarrow>
           t + length (fst (drain_loop e i pending ob t)) * dc \<le> t'"
  using assms
proof (induction e i pending ob t rule: drain_loop.induct)
  case (1 e i pending ob t)
  let ?chunk = "stdout_read e i chunk_size pending"
  have n: "\<And>x. notify e None (Some x) = Returns dc ()"
    using "1.prems"(2) by (simp add: notify_def)
  show ?case
  proof (cases "pending = []")
    case True
    then show ?thesis using "1.prems"(1) by (auto simp add: drain_loop_nil split: await.splits)
  next
    case False
    show ?thesis
    proof (cases "sink_write e i")
      case (Returns ds u)
      let ?rest = "drain_loop e (i + 1) (drop (length ?chunk) pending) (ob + length ?chunk)
                  (t + fst (stdout_avail e i) + ds + dc)"
      have st: "drain_loop e i pending ob t = (?chunk # fst ?rest, snd ?rest)"
        by (rule drain_loop_step[OF False Returns n])
      have "snd ?rest = Eof t'" using "1.prems"(1) by (simp add: st)
      then have "t + fst (stdout_avail e i) + ds + dc + length (fst ?rest) * dc \<le> t'"
        using "1.IH"[OF False refl refl refl Returns n _ "1.prems"(2)] by simp
      then show ?thesis by (simp add: st)
    next
      case (Raises ds x)
      then have "\<forall>ds u. sink_write e i = Returns ds u \<longrightarrow>
           (\<forall>dc u'. notify e None (Some (ob + length ?chunk)) \<noteq> Returns dc u')" by simp
      from drain_loop_stop[OF False this, of t] "1.prems"(1) show ?thesis by simp
    next
      case Never
      then have "\<forall>ds u. sink_write e i = Returns ds u \<longrightarrow>
           (\<forall>dc u'. notify e None (Some (ob + length ?chunk)) \<noteq> Returns dc u')" by simp
      from drain_loop_stop[OF False this, of t] "1.prems"(1) show ?thesis by simp
    qed
  qed
qed

text \<open>
  Claim C5, amended. The observer is awaited on the data path. With an observer that
  takes \<open>dc\<close> ticks per call, the feeder ends \<open>dc\<close> ticks later for every chunk, its
  write number \<open>k\<close> (from 0) comes \<open>k * dc\<close> ticks after the pulls before it, and a read
  loop that reaches end of stream does so at least \<open>dc\<close> ticks later for every chunk
  it yielded.
\<close>

theorem observer_is_awaited_on_the_data_path:
  assumes "progress_callback e = Some (\<lambda>a b. Returns dc ())"
  shows "feed_result (feed_loop e items (Returns de ()) total_bytes t) =
           Returns (t + sum_list (map fst items) + length items * dc + de) ()
       \<and> (\<forall>k < length items.
            write_times (feed_loop e items fin total_bytes t) ! k =
              t + sum_list (map fst (take (Suc k) items)) + k * dc)
       \<and> (snd (drain_loop e i pending ob t) = Eof t' \<longrightarrow>
            t + length (fst (drain_loop e i pending ob t)) * dc \<le> t')"
  using feed_loop_observed[OF assms] drain_loop_observed[OF assms] by blast

text \<open>Claim C5, amended: two chunks and an observer of 1000 ticks.\<close>

theorem observer_is_awaited_on_the_data_path_witness:
  "progress_callback (quiet_env\<lparr>progress_callback := Some (\<lambda>a b. Returns 1000 ())\<rparr>)
     = Some (\<lambda>a b. Returns 1000 ())
   \<and> feed_result (feed_loop (quiet_env\<lparr>progress_callback := Some (\<lambda>a b. Returns 1000 ())\<rparr>)
        [(0, [1]), (0, [2])] (Returns 0 ()) 0 0) = Returns 2000 ()
   \<and> (1::nat) < length [(0::nat, [1::8 word]), (0, [2])]
   \<and> write_times (feed_loop (quiet_env\<lparr>progress_callback := Some (\<lambda>a b. Returns 1000 ())\<rparr>)
        [(0, [1]), (0, [2])] (Returns 0 ()) 0 0) ! 1 = 1000
   \<and> snd (drain_loop (quiet_env\<lparr>progress_callback := Some (\<lambda>a b. Returns 1000 ())\<rparr>)
        0 [1, 2] 0 0) = Eof 2000
   \<and> 0 + length (fst (drain_loop (quiet_env\<lparr>progress_callback := Some (\<lambda>a b. Returns 1000 ())\<rparr>)
        0 [1, 2] 0 0)) * 1000 \<le> (2000::nat)"
proof -
  let ?e = "quiet_env\<lparr>progress_callback := Some (\<lambda>a b. Returns 1000 ())\<rparr>"
  have h: "progress_callback ?e = Some (\<lambda>a b. Returns 1000 ())"
    by (simp add: quiet_env_def)
  have k: "(1::nat) < length [(0::nat, [1::8 word]), (0, [2])]" by simp
  have d: "snd (drain_loop ?e 0 [1, 2] 0 0) = Eof 2000"
    by (simp add: notify_def quiet_env_def drain_loop.simps Let_def stdout_read_def
          chunk_size_def)
  show ?thesis
    using observer_is_awaited_on_the_data_path
            [OF h, where items = "[(0, [1]), (0, [2])]" and de = 0 and total_bytes = 0
               and t = 0 and fin = "Returns 0 ()" and i = 0 and pending = "[1, 2]" and ob = 0
               and t' = 2000] h k d
    by simp
qed

text \<open>
  Claim C4, as stated, fails. A child process that takes nothing from its input and never
  closes its output, and a stream of three chunks of 1 MiB: the feeder task ends at tick
  0, having suspended on no write, with all 3 MiB handed to the writer and none taken.
\<close>

theorem stalled_process_does_not_suspend_the_feeder:
  "stdin_accepts stalled_env = 0
   \<and> stdout_end stalled_env = Never
   \<and> feed_result (feed_input stalled_env (stream_from_telegram stalled_env) 0) = Returns 0 ()
   \<and> stdin_closed (feed_input stalled_env (stream_from_telegram stalled_env) 0)
   \<and> stdin_backlog stalled_env (feed_input stalled_env (stream_from_telegram stalled_env) 0)
       = 3 * 1024 * 1024"
  by (simp add: feed_input_def stream_from_telegram_def max_file_size_def notify_def wrote_def
        stalled_env_def quiet_env_def stdin_backlog_def Let_def)

lemma notify_stdin_accepts [simp]:
  "notify (e\<lparr>stdin_accepts := k\<rparr>) a b = notify e a b"
  by (simp add: notify_def)

lemma feed_loop_stdin_accepts:
  "feed_loop (e\<lparr>stdin_accepts := k\<rparr>) items fin total_bytes t = feed_loop e items fin total_bytes t"
  by (induction items arbitrary: total_bytes t) (auto simp add: Let_def split: await.splits)

lemma feed_loop_written:
  assumes "\<forall>a. \<exists>dc. notify e (Some a) None = Returns dc ()"
  shows "written (feed_loop e items fin total_bytes t) = map snd items"
proof (induction items arbitrary: total_bytes t)
  case Nil
  then show ?case by (simp split: await.splits)
next
  case (Cons a items)
  obtain d chunk where a: "a = (d, chunk)" by (cases a)
  obtain dc where "notify e (Some (total_bytes + length chunk)) None = Returns dc ()"
    using assms by blast
  then show ?case using Cons.IH by (simp add: a Let_def wrote_def)
qed

text \<open>
  Claim C4, amended. \<^verbatim>\<open>process.stdin.write\<close> never suspends the feeder: what the
  feeder does is the same whatever the process takes from its input; with an observer
  that returns, every chunk of the stream is written, and the bytes held for the process
  are all the bytes of the stream less those the process has taken.
\<close>

theorem feeder_writes_without_waiting:
  assumes "\<forall>a. \<exists>dc. notify e (Some a) None = Returns dc ()"
  shows "feed_loop (e\<lparr>stdin_accepts := k\<rparr>) items fin total_bytes t
           = feed_loop e items fin total_bytes t
       \<and> written (feed_loop e items fin total_bytes t) = map snd items
       \<and> stdin_backlog e (feed_loop e items fin total_bytes t)
           = sum_list (map (\<lambda>c. length (snd c)) items) - stdin_accepts e"
  by (simp add: feed_loop_stdin_accepts feed_loop_written[OF assms] stdin_backlog_def comp_def)

text \<open>Claim C4, amended: two chunks, with a process that takes nothing.\<close>

theorem feeder_writes_without_waiting_witness:
  "(\<forall>a. \<exists>dc. notify quiet_env (Some a) None = Returns dc ())
   \<and> feed_loop (quiet_env\<lparr>stdin_accepts := 65536\<rparr>) [(0, [1, 2]), (0, [3])] (Returns 0 ()) 0 0
       = feed_loop quiet_env [(0, [1, 2]), (0, [3])] (Returns 0 ()) 0 0
   \<and> written (feed_loop quiet_env [(0, [1, 2]), (0, [3])] (Returns 0 ()) 0 0) = [[1, 2], [3]]
   \<and> stdin_backlog quiet_env (feed_loop quiet_env [(0, [1, 2]), (0, [3])] (Returns 0 ()) 0 0) = 3"
proof -
  have h: "\<forall>a. \<exists>dc. notify quiet_env (Some a) None = Returns dc ()"
    by (simp add: notify_def quiet_env_def)
  have s: "stdin_accepts quiet_env = 0" by (simp add: quiet_env_def)
  show ?thesis
    using feeder_writes_without_waiting
            [OF h, where k = 65536 and items = "[(0, [1, 2]), (0, [3])]"
               and fin = "Returns 0 ()" and total_bytes = 0 and t = 0] h s
    by simp
qed

section \<open>Rounding to the nearest float\<close>

lemma pow2_pos [simp]: "0 < pow2 k"
  by (simp add: pow2_def)

lemma pow2_add: "pow2 (a + b) = pow2 a * pow2 b"
  by (simp add: pow2_def power_int_add)

lemma pow2_diff: "pow2 (a - b) = pow2 a / pow2 b"
  by (simp add: pow2_def power_int_diff)

lemma pow2_mono: "a \<le> b \<Longrightarrow> pow2 a \<le> pow2 b"
  by (simp add: pow2_def power_int_increasing)

lemma pow2_strict_mono: "a < b \<Longrightarrow> pow2 a < pow2 b"
  by (simp add: pow2_def power_int_strict_increasing)

lemma pow2_nat: "0 \<le> k \<Longrightarrow> pow2 k = of_int (2 ^ nat k)"
  by (simp add: pow2_def power_int_def)

lemma pow2_0 [simp]: "pow2 0 = 1"
  by (simp add: pow2_def)


lemma floor_log2_bounds:
  assumes "0 < q"
  shows "pow2 (floor_log2 q) \<le> q \<and> q < pow2 (floor_log2 q + 1)"
proof -
  obtain a b where ab: "quotient_of q = (a, b)" by (cases "quotient_of q")
  have b: "0 < b" using ab by (rule quotient_of_denom_pos)
  have q: "q = of_int a / of_int b" using ab by (rule quotient_of_div)
  have a: "0 < a" using assms b q by (simp add: zero_less_divide_iff)
  let ?la = "bitlen a" and ?lb = "bitlen b"
  have la: "1 \<le> ?la" and lb: "1 \<le> ?lb"
    using a b bitlen_eq_zero_iff[of a] bitlen_eq_zero_iff[of b] bitlen_nonneg[of a] bitlen_nonneg[of b]
    by linarith+
  have ba: "2 ^ nat (?la - 1) \<le> a" "a < 2 ^ nat ?la"
    using bitlen_bounds[OF a] by simp_all
  have bb: "2 ^ nat (?lb - 1) \<le> b" "b < 2 ^ nat ?lb"
    using bitlen_bounds[OF b] by simp_all
  have ra: "pow2 (?la - 1) \<le> of_int a" "of_int a < pow2 ?la"
    using ba la by (simp_all add: pow2_nat flip: of_int_power)
  have rb: "pow2 (?lb - 1) \<le> of_int b" "of_int b < pow2 ?lb"
    using bb lb by (simp_all add: pow2_nat flip: of_int_power)
  let ?k = "?la - ?lb"
  have up: "q < pow2 (?k + 1)"
  proof -
    have "of_int a < pow2 (?k + 1) * pow2 (?lb - 1)"
      using ra(2) by (simp flip: pow2_add)
    also have "\<dots> \<le> pow2 (?k + 1) * of_int b"
      using rb(1) by (simp add: mult_left_mono less_imp_le)
    finally show ?thesis using b by (simp add: q pos_divide_less_eq)
  qed
  have lo: "pow2 (?k - 1) \<le> q"
  proof -
    have "pow2 (?k - 1) * of_int b \<le> pow2 (?k - 1) * pow2 ?lb"
      using rb(2) by (simp add: mult_left_mono less_imp_le)
    also have "\<dots> = pow2 (?la - 1)" by (simp flip: pow2_add)
    also have "\<dots> \<le> of_int a" by (rule ra(1))
    finally show ?thesis using b by (simp add: q pos_le_divide_eq)
  qed
  show ?thesis
  proof (cases "pow2 ?k \<le> q")
    case True
    then have "floor_log2 q = ?k" by (simp add: floor_log2_def ab Let_def)
    then show ?thesis using True up by simp
  next
    case False
    then have "floor_log2 q = ?k - 1" by (simp add: floor_log2_def ab Let_def)
    then show ?thesis using False lo by simp
  qed
qed

lemma floor_log2_unique:
  assumes "pow2 k \<le> q" "q < pow2 (k + 1)"
  shows "floor_log2 q = k"
proof -
  have q: "0 < q" using assms(1) pow2_pos[of k] by linarith
  note b = floor_log2_bounds[OF q]
  have "pow2 k < pow2 (floor_log2 q + 1)" using assms(1) b by linarith
  then have 1: "k < floor_log2 q + 1"
    using pow2_mono[of "floor_log2 q + 1" k] by (cases "k < floor_log2 q + 1") auto
  have "pow2 (floor_log2 q) < pow2 (k + 1)" using assms(2) b by linarith
  then have 2: "floor_log2 q < k + 1"
    using pow2_mono[of "k + 1" "floor_log2 q"] by (cases "floor_log2 q < k + 1") auto
  show ?thesis using 1 2 by simp
qed

lemma floor_log2_mono:
  assumes "0 < x" "x \<le> y"
  shows "floor_log2 x \<le> floor_log2 y"
proof (rule ccontr)
  assume "\<not> floor_log2 x \<le> floor_log2 y"
  then have "floor_log2 y + 1 \<le> floor_log2 x" by simp
  then have "pow2 (floor_log2 y + 1) \<le> pow2 (floor_log2 x)" by (rule pow2_mono)
  moreover have "y < pow2 (floor_log2 y + 1)" "pow2 (floor_log2 x) \<le> x"
    using floor_log2_bounds[of x] floor_log2_bounds[of y] assms by simp_all
  ultimately show False using assms(2) by linarith
qed

lemma round_half_even_of_int [simp]: "round_half_even (of_int n) = n"
  by (simp add: round_half_even_def)


lemma round_half_even_mono:
  assumes "x \<le> y"
  shows "round_half_even x \<le> round_half_even y"
proof (cases "\<lfloor>x\<rfloor> = \<lfloor>y\<rfloor>")
  case True
  then show ?thesis using assms by (auto simp add: round_half_even_def Let_def)
next
  case False
  then have "\<lfloor>x\<rfloor> + 1 \<le> \<lfloor>y\<rfloor>" using floor_mono[OF assms] by simp
  moreover have "round_half_even x \<le> \<lfloor>x\<rfloor> + 1" "\<lfloor>y\<rfloor> \<le> round_half_even y"
    by (auto simp add: round_half_even_def Let_def)
  ultimately show ?thesis by linarith
qed

lemma nearest_le_multiple:
  assumes "0 < q" and "q \<le> of_int m * pow2 j" and "ulp_exponent q \<le> j"
  shows "nearest q \<le> of_int m * pow2 j"
proof -
  let ?e = "ulp_exponent q"
  have j: "pow2 j = pow2 (j - ?e) * pow2 ?e" by (simp flip: pow2_add)
  have n: "pow2 (j - ?e) = of_int (2 ^ nat (j - ?e))" using assms(3) by (simp add: pow2_nat)
  have "q / pow2 ?e \<le> of_int m * pow2 (j - ?e)"
    using assms(2) by (simp add: pos_divide_le_eq j mult.assoc)
  also have "\<dots> = of_int (m * 2 ^ nat (j - ?e))" by (simp add: n)
  finally have "round_half_even (q / pow2 ?e) \<le> m * 2 ^ nat (j - ?e)"
    using round_half_even_mono round_half_even_of_int by metis
  then have "(of_int (round_half_even (q / pow2 ?e)) :: rat) \<le> of_int (m * 2 ^ nat (j - ?e))"
    by (simp only: of_int_le_iff)
  then have "nearest q \<le> of_int (m * 2 ^ nat (j - ?e)) * pow2 ?e"
    unfolding nearest_def by (simp add: mult_right_mono less_imp_le)
  also have "\<dots> = of_int m * (pow2 (j - ?e) * pow2 ?e)" by (simp add: n)
  also have "\<dots> = of_int m * pow2 j" by (simp flip: pow2_add)
  finally show ?thesis .
qed

lemma nearest_ge_multiple:
  assumes "0 < q" and "of_int m * pow2 j \<le> q" and "ulp_exponent q \<le> j"
  shows "of_int m * pow2 j \<le> nearest q"
proof -
  let ?e = "ulp_exponent q"
  have j: "pow2 j = pow2 (j - ?e) * pow2 ?e" by (simp flip: pow2_add)
  have n: "pow2 (j - ?e) = of_int (2 ^ nat (j - ?e))" using assms(3) by (simp add: pow2_nat)
  have "of_int m * pow2 (j - ?e) \<le> q / pow2 ?e"
    using assms(2) by (simp add: pos_le_divide_eq j mult.assoc)
  moreover have "of_int m * pow2 (j - ?e) = of_int (m * 2 ^ nat (j - ?e))" by (simp add: n)
  ultimately have "m * 2 ^ nat (j - ?e) \<le> round_half_even (q / pow2 ?e)"
    using round_half_even_mono round_half_even_of_int by metis
  then have "(of_int (m * 2 ^ nat (j - ?e)) :: rat) \<le> of_int (round_half_even (q / pow2 ?e))"
    by (simp only: of_int_le_iff)
  then have A: "of_int (m * 2 ^ nat (j - ?e)) * pow2 ?e \<le> nearest q"
    unfolding nearest_def by (simp add: mult_right_mono less_imp_le)
  have "of_int m * pow2 j = of_int m * (pow2 (j - ?e) * pow2 ?e)"
    by (simp flip: pow2_add)
  also have "\<dots> = of_int (m * 2 ^ nat (j - ?e)) * pow2 ?e"
    by (simp add: n)
  finally have B: "of_int m * pow2 j = of_int (m * 2 ^ nat (j - ?e)) * pow2 ?e" .
  show ?thesis unfolding B by (rule A)
qed

lemma nearest_nonneg: "0 < q \<Longrightarrow> 0 \<le> nearest q"
  using nearest_ge_multiple[of q 0 "ulp_exponent q"] by simp




lemma ulp_exponent_mono:
  "0 < x \<Longrightarrow> x \<le> y \<Longrightarrow> ulp_exponent x \<le> ulp_exponent y"
  using floor_log2_mono[of x y] by (simp add: ulp_exponent_def)

lemma nearest_mono:
  assumes "0 < x" and "x \<le> y"
  shows "nearest x \<le> nearest y"
proof (cases "ulp_exponent x = ulp_exponent y")
  case True
  have "x / pow2 (ulp_exponent y) \<le> y / pow2 (ulp_exponent y)"
    using assms(2) by (simp add: divide_right_mono less_imp_le)
  then have "round_half_even (x / pow2 (ulp_exponent y)) \<le> round_half_even (y / pow2 (ulp_exponent y))"
    by (rule round_half_even_mono)
  then have "(of_int (round_half_even (x / pow2 (ulp_exponent y))) :: rat)
      \<le> of_int (round_half_even (y / pow2 (ulp_exponent y)))"
    by (simp only: of_int_le_iff)
  then show ?thesis unfolding nearest_def True by (simp add: mult_right_mono less_imp_le)
next
  case False
  have y: "0 < y" using assms by linarith
  have lt: "ulp_exponent x < ulp_exponent y"
    using False ulp_exponent_mono[OF assms] by simp
  then have ey: "ulp_exponent y = floor_log2 y - 52"
    by (auto simp add: ulp_exponent_def max_def split: if_splits)
  have "floor_log2 x - 52 \<le> ulp_exponent x" by (simp add: ulp_exponent_def)
  then have l: "floor_log2 x + 1 \<le> floor_log2 y" using lt ey by simp
  have "x \<le> pow2 (floor_log2 x + 1)" using floor_log2_bounds[OF assms(1)] by simp
  also have "\<dots> \<le> pow2 (floor_log2 y)" using l by (rule pow2_mono)
  finally have "x \<le> of_int 1 * pow2 (floor_log2 y)" by simp
  then have "nearest x \<le> of_int 1 * pow2 (floor_log2 y)"
    using lt ey by (intro nearest_le_multiple[OF assms(1)]) simp_all
  moreover have "of_int 1 * pow2 (floor_log2 y) \<le> nearest y"
    using floor_log2_bounds[OF y] ey by (intro nearest_ge_multiple[OF y]) simp_all
  ultimately show ?thesis by linarith
qed

lemma round_double_cases:
  "0 < q \<Longrightarrow> round_double q = (if pow2 1024 \<le> nearest q then PosInf else Finite (nearest q))"
  "q < 0 \<Longrightarrow> round_double q = (if pow2 1024 \<le> nearest (- q) then NegInf else Finite (- nearest (- q)))"
  "round_double 0 = Finite 0"
  by (simp_all add: round_double_def)

lemma round_double_mono:
  assumes "x \<le> y"
  shows "float_le (round_double x) (round_double y)"
proof -
  consider (pp) "0 < x" "0 < y" | (nn) "x < 0" "y < 0" | (np) "x < 0" "0 \<le> y" | (zp) "x = 0" "0 \<le> y"
    using assms by linarith
  then show ?thesis
  proof cases
    case pp
    then show ?thesis using nearest_mono[OF pp(1) assms] by (simp add: round_double_cases)
  next
    case nn
    then have "0 < - y" "- y \<le> - x" using assms by simp_all
    then show ?thesis using nearest_mono[of "- y" "- x"] nn by (simp add: round_double_cases)
  next
    case np
    then have "0 \<le> nearest (- x)" by (simp add: nearest_nonneg)
    then show ?thesis using np nearest_nonneg[of y]
      by (cases "y = 0") (simp_all add: round_double_cases)
  next
    case zp
    then show ?thesis using nearest_nonneg[of y]
      by (cases "y = 0") (simp_all add: round_double_cases)
  qed
qed

lemma round_half_even_eqI:
  assumes "\<bar>x - of_int m\<bar> < 1 / 2"
  shows "round_half_even x = m"
proof -
  have "\<lfloor>x\<rfloor> = m \<or> \<lfloor>x\<rfloor> = m - 1" using assms by linarith
  then show ?thesis
  proof
    assume f: "\<lfloor>x\<rfloor> = m"
    then have "x - of_int m < 1 / 2" using assms by linarith
    then show ?thesis by (simp add: round_half_even_def f)
  next
    assume f: "\<lfloor>x\<rfloor> = m - 1"
    have "of_int m - x < 1 / 2" using assms by linarith
    then have "1 / 2 < x - of_int (m - 1)" by simp
    then show ?thesis by (simp add: round_half_even_def f)
  qed
qed

lemma ulp_exponent_eqI:
  assumes "pow2 L \<le> q" and "q < pow2 (L + 1)"
  shows "ulp_exponent q = max (L - 52) (- 1074)"
  using floor_log2_unique[OF assms] by (simp add: ulp_exponent_def)

lemma round_double_eqI:
  assumes "pow2 L \<le> q" and "q < pow2 (L + 1)"
    and "\<bar>q / pow2 (max (L - 52) (- 1074)) - of_int m\<bar> < 1 / 2"
    and "of_int m * pow2 (max (L - 52) (- 1074)) < pow2 1024"
  shows "round_double q = Finite (of_int m * pow2 (max (L - 52) (- 1074)))"
proof -
  have q: "0 < q" using assms(1) pow2_pos[of L] by linarith
  have e: "ulp_exponent q = max (L - 52) (- 1074)" using assms(1,2) by (rule ulp_exponent_eqI)
  have "nearest q = of_int m * pow2 (max (L - 52) (- 1074))"
    unfolding nearest_def e using round_half_even_eqI[OF assms(3)] by simp
  then show ?thesis using q assms(4) by (simp add: round_double_cases)
qed

lemma pow2_numeral [simp]:
  "pow2 (numeral n) = 2 ^ numeral n" "pow2 (- numeral n) = 1 / 2 ^ numeral n" "pow2 1 = 2"
  "pow2 (- 1) = 1 / 2"
  by (simp_all add: pow2_def power_int_def inverse_eq_divide power_one_over)


section \<open>The dimensions are even (C9)\<close>

lemma nearest_exact:
  assumes "0 < q" and "q = of_int m * pow2 j" and "ulp_exponent q \<le> j"
  shows "nearest q = q"
proof -
  have "nearest q \<le> of_int m * pow2 j"
    using assms by (intro nearest_le_multiple) simp_all
  moreover have "of_int m * pow2 j \<le> nearest q"
    using assms by (intro nearest_ge_multiple) simp_all
  ultimately show ?thesis using assms(2) by simp
qed

lemma ulp_exponent_le:
  assumes "0 < q" and "q \<le> pow2 K" and "- 1074 \<le> K"
  shows "ulp_exponent q \<le> K"
proof -
  have "floor_log2 q \<le> K"
  proof (rule ccontr)
    assume "\<not> floor_log2 q \<le> K"
    then have "K + 1 \<le> floor_log2 q" by simp
    then have "pow2 (K + 1) \<le> pow2 (floor_log2 q)" by (rule pow2_mono)
    moreover have "pow2 K < pow2 (K + 1)" by (simp add: pow2_strict_mono)
    ultimately show False using floor_log2_bounds[OF assms(1)] assms(2) by linarith
  qed
  then show ?thesis using assms(3) by (simp add: ulp_exponent_def)
qed

lemma round_double_bounded:
  assumes "0 < q" and "q \<le> pow2 K" and "- 1074 \<le> K" and "K < 1024"
  shows "round_double q = Finite (nearest q) \<and> 0 \<le> nearest q \<and> nearest q \<le> pow2 K"
proof -
  have "nearest q \<le> of_int 1 * pow2 K"
    using assms(1,2) ulp_exponent_le[OF assms(1-3)] by (intro nearest_le_multiple) simp_all
  then have le: "nearest q \<le> pow2 K" by simp
  have "pow2 K < pow2 1024" using assms(4) by (rule pow2_strict_mono)
  then show ?thesis using le assms(1) nearest_nonneg[OF assms(1)] by (simp add: round_double_cases)
qed

lemma round_double_not_NaN [simp]: "round_double q \<noteq> NaN"
  by (simp add: round_double_def)

lemma round_double_int:
  assumes "0 \<le> n" and "n < 2 ^ 53"
  shows "round_double (of_int n) = Finite (of_int n)"
proof (cases "n = 0")
  case True
  then show ?thesis by (simp add: round_double_def)
next
  case False
  then have q: "(0::rat) < of_int n" using assms(1) by simp
  have "(of_int n :: rat) \<le> of_int (2 ^ 53)" using assms(2) by (simp only: of_int_le_iff)
  then have b: "(of_int n :: rat) \<le> pow2 53" by simp
  have "floor_log2 (of_int n) < 53"
  proof (rule ccontr)
    assume "\<not> floor_log2 (of_int n) < 53"
    then have "pow2 53 \<le> pow2 (floor_log2 (of_int n))" by (intro pow2_mono) simp
    then have "(2 ^ 53 :: rat) \<le> of_int n" using floor_log2_bounds[OF q] by simp
    then have "(of_int (2 ^ 53) :: rat) \<le> of_int n" by simp
    then have "2 ^ 53 \<le> n" by (simp only: of_int_le_iff)
    then show False using assms(2) by simp
  qed
  then have e: "ulp_exponent (of_int n) \<le> 0" by (simp add: ulp_exponent_def)
  have "nearest (of_int n) = of_int n"
    using e by (intro nearest_exact[OF q, of n 0]) simp_all
  moreover have "(of_int n :: rat) < pow2 1024"
    using b pow2_strict_mono[of 53 1024] by simp
  ultimately show ?thesis using q by (simp add: round_double_cases)
qed

lemma map_of_target_heights:
  "map_of target_heights res =
     (if res = ''720p'' then Some 720 else if res = ''480p'' then Some 480
      else if res = ''360p'' then Some 360 else None)"
  by (simp add: target_heights_def)

lemma int_mul_float_small:
  assumes "0 \<le> n" and "n < 2 ^ 53"
  shows "int_mul_float n (Finite a) = Inr (round_double (of_int n * a))"
  using round_double_int[OF assms] by (simp add: int_mul_float_def int_to_float_def)

lemma true_divide_cases:
  assumes "0 < w" and "0 < h"
  shows "(\<exists>a. true_divide w h = Inr (Finite a) \<and> 0 \<le> a \<and>
              (w < 2 ^ 1000 * h \<longrightarrow> a \<le> pow2 1000))
       \<or> (true_divide w h = Inl (Exn OverflowError ''integer division result too large for a float'')
           \<and> 2 ^ 1000 * h \<le> w)"
proof -
  let ?q = "of_int w / of_int h :: rat"
  have q: "0 < ?q" using assms by simp
  have h0: "h \<noteq> 0" using assms by simp
  show ?thesis
  proof (cases "w < 2 ^ 1000 * h")
    case True
    then have "(of_int w :: rat) < of_int (2 ^ 1000 * h)" by (simp only: of_int_less_iff)
    then have "?q < 2 ^ 1000" using assms(2) by (simp add: pos_divide_less_eq)
    then have "?q \<le> pow2 1000" by simp
    from round_double_bounded[OF q this] show ?thesis
      using h0 True by (simp add: true_divide_def)
  next
    case False
    then show ?thesis
      using h0 q nearest_nonneg[OF q] by (simp add: true_divide_def round_double_cases)
  qed
qed

lemma adjust_even: "even (if k mod 2 \<noteq> 0 then k + 1 else (k::int))"
  by presburger

text \<open>
  Claim C9, amended. For every resolution string other than \<open>720p\<close>, \<open>480p\<close>, \<open>360p\<close>
  the function raises \<open>ValueError\<close>. For one of these three, a positive width and a
  positive height, it either returns a pair whose components are both even and whose
  height is the nominal height of the resolution, or raises \<open>OverflowError\<close>; it raises
  only when the width is at least \<open>2 ^ 1000\<close> times the height.
\<close>

theorem calculate_video_dimensions_even:
  "(target_resolution \<notin> {''720p'', ''480p'', ''360p''} \<longrightarrow>
      calculate_video_dimensions original_width original_height target_resolution =
        Inl (Exn ValueError (''Unsupported resolution: '' @ target_resolution)))
   \<and> (0 < original_width \<and> 0 < original_height
        \<and> target_resolution \<in> {''720p'', ''480p'', ''360p''} \<longrightarrow>
      (case calculate_video_dimensions original_width original_height target_resolution of
         Inr (width, height) \<Rightarrow>
           even width \<and> even height \<and>
           height = (if target_resolution = ''720p'' then 720
                     else if target_resolution = ''480p'' then 480 else 360)
       | Inl x \<Rightarrow> kind x = OverflowError \<and> 2 ^ 1000 * original_height \<le> original_width))"
proof (intro conjI impI)
  assume "target_resolution \<notin> {''720p'', ''480p'', ''360p''}"
  then show "calculate_video_dimensions original_width original_height target_resolution =
        Inl (Exn ValueError (''Unsupported resolution: '' @ target_resolution))"
    by (simp add: calculate_video_dimensions_def map_of_target_heights)
next
  assume a: "0 < original_width \<and> 0 < original_height
        \<and> target_resolution \<in> {''720p'', ''480p'', ''360p''}"
  define th :: int where "th = (if target_resolution = ''720p'' then 720
             else if target_resolution = ''480p'' then 480 else 360)"
  have th: "map_of target_heights target_resolution = Some th"
    using a by (auto simp add: map_of_target_heights th_def)
  have thb: "0 \<le> th" "th < 2 ^ 53" "of_int th \<le> (1024::rat)" "even th"
    by (simp_all add: th_def)
  from true_divide_cases[of original_width original_height] a
  consider (fin) r where "true_divide original_width original_height = Inr (Finite r)" "0 \<le> r"
      "original_width < 2 ^ 1000 * original_height \<longrightarrow> r \<le> pow2 1000"
    | (ovf) "true_divide original_width original_height =
          Inl (Exn OverflowError ''integer division result too large for a float'')"
        "2 ^ 1000 * original_height \<le> original_width"
    by blast
  then have "case calculate_video_dimensions original_width original_height target_resolution of
         Inr (width, height) \<Rightarrow>
           even width \<and> even height \<and> height = th
       | Inl x \<Rightarrow> kind x = OverflowError \<and> 2 ^ 1000 * original_height \<le> original_width"
  proof cases
    case ovf
    then show ?thesis by (simp add: calculate_video_dimensions_def th)
  next
    case fin
    let ?p = "of_int th * r"
    have m: "int_mul_float th (Finite r) = Inr (round_double ?p)"
      using thb(1,2) by (rule int_mul_float_small)
    have c: "calculate_video_dimensions original_width original_height target_resolution =
        (case float_to_int (round_double ?p) of
           Inl x \<Rightarrow> Inl x
         | Inr k \<Rightarrow> Inr (if k mod 2 \<noteq> 0 then k + 1 else k, th))"
      using thb(4)
      by (simp add: calculate_video_dimensions_def th fin(1) m even_iff_mod_2_eq_zero)
    show ?thesis
    proof (cases "round_double ?p")
      case (Finite s)
      then show ?thesis using adjust_even thb(4) by (simp add: c)
    next
      case PosInf
      have "2 ^ 1000 * original_height \<le> original_width"
      proof (rule ccontr)
        assume "\<not> 2 ^ 1000 * original_height \<le> original_width"
        then have r: "r \<le> pow2 1000" using fin(3) by simp
        have "?p \<le> 1024 * pow2 1000"
          using r fin(2) thb(3) by (intro mult_mono) simp_all
        also have "\<dots> = pow2 1010" by (simp flip: power_add)
        finally have p: "?p \<le> pow2 1010" .
        have "round_double ?p \<noteq> PosInf"
        proof (cases "?p = 0")
          case True
          then show ?thesis by (simp add: round_double_def)
        next
          case False
          then have "0 < ?p" using fin(2) thb(1) by (simp add: zero_less_mult_iff)
          from round_double_bounded[OF this p] show ?thesis by simp
        qed
        then show False using PosInf by simp
      qed
      then show ?thesis using PosInf by (simp add: c)
    next
      case NegInf
      have "0 \<le> ?p" using fin(2) thb(1) by simp
      then have "round_double ?p \<noteq> NegInf"
        by (simp add: round_double_def)
      then show ?thesis using NegInf by simp
    next
      case NaN
      then show ?thesis by simp
    qed
  qed
  then show "case calculate_video_dimensions original_width original_height target_resolution of
         Inr (width, height) \<Rightarrow>
           even width \<and> even height \<and>
           height = (if target_resolution = ''720p'' then 720
                     else if target_resolution = ''480p'' then 480 else 360)
       | Inl x \<Rightarrow> kind x = OverflowError \<and> 2 ^ 1000 * original_height \<le> original_width"
    unfolding th_def .
qed

text \<open>
  Claim C9, as stated, fails. For a width of \<open>2 ^ 1024\<close> and a height of 1 the true
  division \<^verbatim>\<open>original_width / original_height\<close> raises \<open>OverflowError\<close>: no pair is
  returned.
\<close>

theorem huge_width_overflows:
  "(0::int) < 2 ^ 1024 \<and> (0::int) < 1
   \<and> calculate_video_dimensions (2 ^ 1024) 1 ''720p'' =
       Inl (Exn OverflowError ''integer division result too large for a float'')"
proof -
  let ?q = "pow2 1024"
  have q: "0 < ?q" by simp
  have "floor_log2 ?q = 1024"
    by (intro floor_log2_unique) (simp_all add: pow2_strict_mono)
  then have e: "ulp_exponent ?q \<le> 1024" by (simp add: ulp_exponent_def)
  have "of_int 1 * pow2 1024 \<le> nearest ?q"
    using e by (intro nearest_ge_multiple[OF q]) simp_all
  then have "round_double ?q = PosInf" using q by (simp add: round_double_cases)
  moreover have "(of_int (2 ^ 1024) / of_int 1 :: rat) = pow2 1024" by simp
  ultimately have "true_divide (2 ^ 1024) 1 =
      Inl (Exn OverflowError ''integer division result too large for a float'')"
    by (simp add: true_divide_def)
  then show ?thesis by (simp add: calculate_video_dimensions_def map_of_target_heights)
qed

lemma calculate_1920_1080:
  "calculate_video_dimensions 1920 1080 ''720p'' = Inr (1280, 720)"
proof -
  let ?r = "2001599834386887 / 1125899906842624 :: rat"
  have r: "round_double (of_int 1920 / of_int 1080) = Finite ?r"
    using round_double_eqI[of 0 "of_int 1920 / of_int 1080" 8006399337547548] by simp
  have p: "round_double (of_int 720 * ?r) = Finite 1280"
    using round_double_eqI[of 10 "of_int 720 * ?r" 5629499534213120] by simp
  have t: "true_divide 1920 1080 = Inr (Finite ?r)"
    using r by (simp add: true_divide_def)
  have m: "int_mul_float 720 (Finite ?r) = Inr (Finite 1280)"
    using int_mul_float_small[of 720 ?r] p by simp
  show ?thesis
    by (simp add: calculate_video_dimensions_def map_of_target_heights t m)
qed

text \<open>Claim C9, amended: 1920 by 1080, to \<open>1080p\<close> and to \<open>720p\<close>.\<close>

theorem calculate_video_dimensions_even_witness:
  "''1080p'' \<notin> {''720p'', ''480p'', ''360p''}
   \<and> calculate_video_dimensions 1920 1080 ''1080p'' =
       Inl (Exn ValueError ''Unsupported resolution: 1080p'')
   \<and> (0::int) < 1920 \<and> (0::int) < 1080 \<and> ''720p'' \<in> {''720p'', ''480p'', ''360p''}
   \<and> calculate_video_dimensions 1920 1080 ''720p'' = Inr (1280, 720)
   \<and> even (1280::int) \<and> even (720::int)"
  using calculate_video_dimensions_even [of "''1080p''" 1920 1080]
    calculate_video_dimensions_even [of "''720p''" 1920 1080] calculate_1920_1080
  by simp

section \<open>The size estimate is monotone and bounded (C10)\<close>





lemma float_le_refl_round [simp]: "float_le (round_double q) (round_double q)"
  by (rule round_double_mono) simp


lemma number_le_refl_Float [simp]: "number_le (PyFloat (round_double q)) (PyFloat (round_double q))"
  by (simp add: number_le_def)







end
